theory Spec2Isabelle
  imports Main
begin

text \<open>
  A verification model of the process supervisor in \<^verbatim>\<open>services/server_manager.go\<close>
  and of \<^verbatim>\<open>SetStatus\<close> in the \<^verbatim>\<open>models\<close> package.  Every function that
  runs under one lock is one state transformer on a \<open>world\<close>; what the operating
  system, the clock, the store and the WebSocket peers answer during a call is an
  argument of the call (\<open>env\<close>); what the call does to the outside is appended to
  a trace of events.
\<close>

section \<open>Line sanitizer\<close>

text \<open>
  Go strings are byte sequences; they are modelled as \<open>string\<close> (a list of 8-bit
  \<open>char\<close>).  The conversion \<open>string(text[i])\<close> of a single byte in Go is the
  integer-to-string conversion: it yields the UTF-8 encoding of the code point whose
  number is the byte, which is one byte below 0x80 and two bytes from 0x80 on.
\<close>

definition byteToString :: "char \<Rightarrow> string" where
  "byteToString c =
     (let n = (of_char c :: nat) in
      if n < 128 then [c]
      else [char_of (192 + n div 64), char_of (128 + n mod 64)])"

text \<open>
  The loop of \<open>stripAnsiCodes\<close>: the remaining input is \<open>text[i..]\<close>; the test
  \<open>i+1 < len(text)\<close> is \<open>rest \<noteq> []\<close> and \<open>text[i+1]\<close> is \<open>hd rest\<close>; the extra
  \<open>i++\<close> drops the bracket.
\<close>

fun stripLoop :: "string \<Rightarrow> bool \<Rightarrow> string \<Rightarrow> string" where
  "stripLoop [] inEscape result = result"
| "stripLoop (c # rest) inEscape result =
     (if c = CHR 0x1B \<and> rest \<noteq> [] \<and> hd rest = CHR ''[''
      then stripLoop (tl rest) True result
      else if inEscape
      then stripLoop rest (if c = CHR ''m'' then False else inEscape) result
      else stripLoop rest inEscape (result @ byteToString c))"

definition stripAnsiCodes :: "string \<Rightarrow> string" where
  "stripAnsiCodes text = stripLoop text False []"

section \<open>Splitting the startup command\<close>

text \<open>
  \<open>strings.Fields\<close> of the Go library splits around runs of white space as
  \<open>unicode.IsSpace\<close> defines it.  \<open>spaceWidth\<close> is the number of bytes of the
  white-space character encoded at the head of the input, and 0 when there is none
  there: the six ASCII ones, and U+0085, U+00A0, U+1680, U+2000 to U+200A, U+2028,
  U+2029, U+202F, U+205F and U+3000 in UTF-8.
\<close>

fun spaceWidth :: "string \<Rightarrow> nat" where
  "spaceWidth [] = 0"
| "spaceWidth (c # cs) =
     (let n = (of_char c :: nat); ns = map (of_char :: char \<Rightarrow> nat) (take 2 cs) in
      if n = 9 \<or> n = 10 \<or> n = 11 \<or> n = 12 \<or> n = 13 \<or> n = 32 then 1
      else if n = 0xC2 \<and> (take 1 ns = [0x85] \<or> take 1 ns = [0xA0]) then 2
      else if n = 0xE1 \<and> ns = [0x9A, 0x80] then 3
      else if n = 0xE2 \<and> length ns = 2 \<and> hd ns = 0x80
              \<and> (0x80 \<le> ns ! 1 \<and> ns ! 1 \<le> 0x8A \<or> ns ! 1 = 0xA8 \<or> ns ! 1 = 0xA9 \<or> ns ! 1 = 0xAF)
           then 3
      else if n = 0xE2 \<and> ns = [0x81, 0x9F] then 3
      else if n = 0xE3 \<and> ns = [0x80, 0x80] then 3
      else 0)"

function fieldsFrom :: "string \<Rightarrow> string \<Rightarrow> string list" where
  "fieldsFrom cur [] = (if cur = [] then [] else [cur])"
| "fieldsFrom cur (c # cs) =
     (if 0 < spaceWidth (c # cs)
      then (if cur = [] then [] else [cur]) @ fieldsFrom [] (drop (spaceWidth (c # cs)) (c # cs))
      else fieldsFrom (cur @ [c]) cs)"
  by pat_completeness auto
termination
  by (relation "measure (\<lambda>(cur, s). length s)") auto

definition Fields :: "string \<Rightarrow> string list" where
  "Fields s = fieldsFrom [] s"

section \<open>Units and the store\<close>

text \<open>
  \<open>models.Server\<close>.  Identifiers (\<open>uint\<close>) are only compared, times are only stored:
  both are natural numbers.  \<open>CreatedAt\<close> and \<open>UpdatedAt\<close> are maintained by the ORM
  and read by nothing here; they are left out.
\<close>

record Server =
  ID :: nat
  Name :: string
  FolderPath :: string
  StartupCommand :: string
  Status :: string
  StartedAt :: "nat option"
  UserID :: nat

section \<open>Slices\<close>

text \<open>
  A Go slice is a window on a backing array: the array's address, the offset of the
  window's first element, its length and its capacity.  Arrays live in the world's
  \<open>arrays\<close>, so that two slices on the same array share their elements.
\<close>

record slice =
  sl_arr :: nat
  sl_off :: nat
  sl_len :: nat
  sl_cap :: nat

section \<open>Process handles\<close>

record Cmd =
  Path :: string
  Args :: "string list"
  Dir :: string
  Process :: "nat option"

text \<open>
  \<open>ServerProcess\<close>.  Streams and WebSocket connections are identified by numbers;
  \<open>Stdin = None\<close> is the nil interface.  \<open>Server\<close> is the struct behind the pointer
  the handle keeps.  \<open>Logs\<close> is a slice; \<open>Clients\<close> is only ever read and replaced
  under \<open>ClientMux\<close> and is kept as the list of its elements.  The two mutexes are
  the atomicity of the functions below.
\<close>

record ServerProcess =
  Server :: Server
  Cmd :: Cmd
  Stdin :: "nat option"
  Stdout :: nat
  Stderr :: nat
  Logs :: slice
  Clients :: "nat list"

section \<open>Errors, events, environment, world\<close>

datatype pipe = StdinPipe | StdoutPipe | StderrPipe

text \<open>One constructor for each place where the supervisor creates an error value.\<close>

datatype error =
    AlreadyRunning
  | InvalidCommand
  | StreamSetupFailed pipe string
  | LaunchFailed string
  | NotRunning
  | StdinUnavailable
  | WriteFailed string

text \<open>\<open>err.Error()\<close>: the message of each error, with the wrapped error's text.\<close>

fun Error :: "error \<Rightarrow> string" where
  "Error AlreadyRunning = ''server is already running''"
| "Error InvalidCommand = ''invalid startup command''"
| "Error (StreamSetupFailed StdinPipe e) = ''failed to create stdin pipe: '' @ e"
| "Error (StreamSetupFailed StdoutPipe e) = ''failed to create stdout pipe: '' @ e"
| "Error (StreamSetupFailed StderrPipe e) = ''failed to create stderr pipe: '' @ e"
| "Error (LaunchFailed e) = ''failed to start server: '' @ e"
| "Error NotRunning = ''server is not running''"
| "Error StdinUnavailable = ''server stdin is not available''"
| "Error (WriteFailed e) = ''failed to send command: '' @ e"

text \<open>
  What a call does to the outside, in order: a write to a process's input stream, a
  kill signal, a WebSocket text message and close, a sleep (seconds), and the three
  goroutines \<open>StartServer\<close> launches.  Calls of \<open>log.Printf\<close> are not recorded.
\<close>

datatype event =
    StdinWrite nat string
  | ProcKill nat
  | WsWrite nat string
  | WsClose nat
  | Sleep nat
  | GoReadOutput nat nat bool
  | GoMonitorProcess nat

text \<open>
  What the outside answers during one call: the clock, the three pipe requests and
  \<open>cmd.Start()\<close> (an error text or the stream, respectively the process id), whether
  \<open>sp.Cmd.Wait()\<close> delivers on \<open>done\<close> within the given number of seconds, the error
  of a write to an input stream if any, whether a WebSocket write succeeds, the
  capacity the runtime picks when \<open>append\<close> has to reallocate (given the old one),
  and the error of \<open>DB.Save\<close> on a struct if any.
\<close>

record env =
  clock :: nat
  stdinPipe :: "string + nat"
  stdoutPipe :: "string + nat"
  stderrPipe :: "string + nat"
  cmdStart :: "string + nat"
  exitsWithin :: "nat \<Rightarrow> bool"
  stdinWrite :: "nat \<Rightarrow> string \<Rightarrow> string option"
  wsWrite :: "nat \<Rightarrow> string \<Rightarrow> bool"
  growCap :: "nat \<Rightarrow> nat"
  dbSave :: "Server \<Rightarrow> string option"

text \<open>
  The state: the table \<open>runningServers\<close> (unit identifier to the address of its
  handle), the \<open>ServerProcess\<close> objects and the backing arrays by address, the next
  free address, the rows of the servers table by primary key, and the trace.
\<close>

record world =
  runningServers :: "nat \<rightharpoonup> nat"
  procs :: "nat \<Rightarrow> ServerProcess"
  arrays :: "nat \<Rightarrow> string list"
  nextAddr :: nat
  db :: "nat \<rightharpoonup> Server"
  trace :: "event list"

definition nilProcess :: ServerProcess where
  "nilProcess =
     \<lparr>Server = \<lparr>ID = 0, Name = [], FolderPath = [], StartupCommand = [], Status = [],
                 StartedAt = None, UserID = 0\<rparr>,
      Cmd = \<lparr>Path = [], Args = [], Dir = [], Process = None\<rparr>,
      Stdin = None, Stdout = 0, Stderr = 0,
      Logs = \<lparr>sl_arr = 0, sl_off = 0, sl_len = 0, sl_cap = 0\<rparr>, Clients = []\<rparr>"

text \<open>The state at program start: nothing running, nothing allocated, the given rows.\<close>

definition initWorld :: "(nat \<rightharpoonup> Server) \<Rightarrow> world" where
  "initWorld rows =
     \<lparr>runningServers = Map.empty, procs = (\<lambda>_. nilProcess), arrays = (\<lambda>_. []),
      nextAddr = 1, db = rows, trace = []\<rparr>"

definition emit :: "event list \<Rightarrow> world \<Rightarrow> world" where
  "emit es w = w\<lparr>trace := trace w @ es\<rparr>"

subsection \<open>Slice operations\<close>

definition sliceElems :: "world \<Rightarrow> slice \<Rightarrow> string list" where
  "sliceElems w s = take (sl_len s) (drop (sl_off s) (arrays w (sl_arr s)))"

text \<open>\<open>make([]string, n)\<close>: a new array of \<open>n\<close> empty strings.\<close>

definition makeSlice :: "nat \<Rightarrow> world \<Rightarrow> slice \<times> world" where
  "makeSlice n w =
     (\<lparr>sl_arr = nextAddr w, sl_off = 0, sl_len = n, sl_cap = n\<rparr>,
      w\<lparr>arrays := (arrays w)(nextAddr w := replicate n []), nextAddr := Suc (nextAddr w)\<rparr>)"

text \<open>
  \<open>append(s, x)\<close>: in place when the capacity allows, otherwise into a new array that
  is large enough.
\<close>

definition goAppend :: "env \<Rightarrow> slice \<Rightarrow> string \<Rightarrow> world \<Rightarrow> slice \<times> world" where
  "goAppend e s x w =
     (if sl_len s < sl_cap s
      then (s\<lparr>sl_len := Suc (sl_len s)\<rparr>,
            w\<lparr>arrays := (arrays w)(sl_arr s := (arrays w (sl_arr s))[sl_off s + sl_len s := x])\<rparr>)
      else (let c = max (Suc (sl_len s)) (growCap e (sl_cap s)) in
            (\<lparr>sl_arr = nextAddr w, sl_off = 0, sl_len = Suc (sl_len s), sl_cap = c\<rparr>,
             w\<lparr>arrays := (arrays w)(nextAddr w :=
                   sliceElems w s @ [x] @ replicate (c - Suc (sl_len s)) []),
               nextAddr := Suc (nextAddr w)\<rparr>)))"

text \<open>\<open>s[lo:]\<close>, for \<open>lo \<le> len(s)\<close> (the only use has \<open>lo = len(s) - 1000 > 0\<close>).\<close>

definition sliceFrom :: "nat \<Rightarrow> slice \<Rightarrow> slice" where
  "sliceFrom lo s =
     s\<lparr>sl_off := sl_off s + lo, sl_len := sl_len s - lo, sl_cap := sl_cap s - lo\<rparr>"

text \<open>\<open>copy(dst, src)\<close>: the first \<open>min(len(dst), len(src))\<close> elements.\<close>

definition goCopy :: "slice \<Rightarrow> slice \<Rightarrow> world \<Rightarrow> world" where
  "goCopy dst src w =
     (let n = min (sl_len dst) (sl_len src); a = arrays w (sl_arr dst) in
      w\<lparr>arrays := (arrays w)(sl_arr dst :=
           take (sl_off dst) a @ take n (sliceElems w src) @ drop (sl_off dst + n) a)\<rparr>)"

section \<open>Status write-back\<close>

text \<open>
  \<open>(*Server).SetStatus\<close>: sets the two fields of the struct, saves the struct and
  returns the error of the save.  \<open>DB.Save\<close> writes all fields of the row with the
  struct's primary key when it succeeds and leaves the store as it is when it fails.
  The result is the struct after the call, the error (\<open>None\<close> is \<open>nil\<close>) and the
  new world.
\<close>

definition SetStatus :: "env \<Rightarrow> string \<Rightarrow> Server \<Rightarrow> world
                           \<Rightarrow> Server \<times> string option \<times> world" where
  "SetStatus e status s w =
     (let s' = s\<lparr>Status := status,
                 StartedAt := (if status = ''online'' then Some (clock e) else None)\<rparr>
      in case dbSave e s' of
           None \<Rightarrow> (s', None, w\<lparr>db := (db w)(ID s' \<mapsto> s')\<rparr>)
         | Some x \<Rightarrow> (s', Some x, w))"

section \<open>The supervisor\<close>

text \<open>
  A function that takes a \<open>*models.Server\<close> and may change it returns the struct as
  it is after the call, next to the error (\<open>None\<close> is \<open>nil\<close>) and the new world.
  The three callers of \<open>SetStatus\<close> do not look at the error it returns.
\<close>

definition StartServer :: "env \<Rightarrow> Server \<Rightarrow> world \<Rightarrow> error option \<times> Server \<times> world" where
  "StartServer e server w =
     (if runningServers w (ID server) \<noteq> None then (Some AlreadyRunning, server, w)
      else case Fields (StartupCommand server) of
        [] \<Rightarrow> (Some InvalidCommand, server, w)
      | name # arg \<Rightarrow>
        (case stdinPipe e of
           Inl x \<Rightarrow> (Some (StreamSetupFailed StdinPipe x), server, w)
         | Inr stdin \<Rightarrow>
        (case stdoutPipe e of
           Inl x \<Rightarrow> (Some (StreamSetupFailed StdoutPipe x), server, w)
         | Inr stdout \<Rightarrow>
        (case stderrPipe e of
           Inl x \<Rightarrow> (Some (StreamSetupFailed StderrPipe x), server, w)
         | Inr stderr \<Rightarrow>
        (case cmdStart e of
           Inl x \<Rightarrow> (Some (LaunchFailed x), server, w)
         | Inr pid \<Rightarrow>
            (let cmd = \<lparr>Path = name, Args = name # arg, Dir = FolderPath server,
                        Process = Some pid\<rparr>;
                 (logs, w1) = makeSlice 0 w;
                 h = nextAddr w1;
                 sp = \<lparr>Server = server, Cmd = cmd, Stdin = Some stdin, Stdout = stdout,
                       Stderr = stderr, Logs = logs, Clients = []\<rparr>;
                 w2 = w1\<lparr>procs := (procs w1)(h := sp), nextAddr := Suc h\<rparr>;
                 w3 = w2\<lparr>runningServers := (runningServers w2)(ID server \<mapsto> h)\<rparr>;
                 (server', saveErr, w4) = SetStatus e ''online'' server w3;
                 w5 = w4\<lparr>procs := (procs w4)(h := (procs w4 h)\<lparr>Server := server'\<rparr>)\<rparr>
             in (None, server',
                 emit [GoReadOutput h stdout False, GoReadOutput h stderr True,
                       GoMonitorProcess h] w5)))))))"

text \<open>
  The loop that ends both \<open>StopServer\<close> and \<open>monitorProcess\<close>: every client is
  written the message and closed (the results are not looked at), then the list is
  replaced by an empty one.
\<close>

definition closeClients :: "string \<Rightarrow> nat \<Rightarrow> world \<Rightarrow> world" where
  "closeClients msg h w =
     (let w1 = emit (concat (map (\<lambda>client. [WsWrite client msg, WsClose client])
                                 (Clients (procs w h)))) w
      in w1\<lparr>procs := (procs w1)(h := (procs w1 h)\<lparr>Clients := []\<rparr>)\<rparr>)"

definition stoppedMessage :: string where
  "stoppedMessage = [CHR 0x0A] @ ''=== Server stopped ==='' @ [CHR 0x0A]"

definition StopServer :: "env \<Rightarrow> Server \<Rightarrow> world \<Rightarrow> error option \<times> Server \<times> world" where
  "StopServer e server w =
     (case runningServers w (ID server) of
        None \<Rightarrow> (Some NotRunning, server, w)
      | Some h \<Rightarrow>
         (let sp = procs w h;
              w1 = (case Stdin sp of
                      None \<Rightarrow> w
                    | Some fd \<Rightarrow> emit [StdinWrite fd (''stop'' @ [CHR 0x0A]),
                                       StdinWrite fd (''end'' @ [CHR 0x0A])] w);
              w2 = (if exitsWithin e 30 then w1
                    else case Process (Cmd sp) of
                           None \<Rightarrow> w1
                         | Some pid \<Rightarrow> emit [ProcKill pid] w1);
              w3 = w2\<lparr>runningServers := (runningServers w2)(ID server := None)\<rparr>;
              (server', saveErr, w4) = SetStatus e ''offline'' server w3
          in (None, server', closeClients stoppedMessage h w4)))"

definition RestartServer :: "env \<Rightarrow> Server \<Rightarrow> world \<Rightarrow> error option \<times> Server \<times> world" where
  "RestartServer e server w =
     (case StopServer e server w of
        (Some err, server1, w1) \<Rightarrow>
          if Error err = ''server is not running'' then StartServer e server1 w1
          else (Some err, server1, w1)
      | (None, server1, w1) \<Rightarrow> StartServer e server1 (emit [Sleep 2] w1))"

definition SendCommand :: "env \<Rightarrow> Server \<Rightarrow> string \<Rightarrow> world \<Rightarrow> error option \<times> world" where
  "SendCommand e server command w =
     (case runningServers w (ID server) of
        None \<Rightarrow> (Some NotRunning, w)
      | Some h \<Rightarrow>
         (case Stdin (procs w h) of
            None \<Rightarrow> (Some StdinUnavailable, w)
          | Some fd \<Rightarrow>
             (let w1 = emit [StdinWrite fd (command @ [CHR 0x0A])] w in
              case stdinWrite e fd (command @ [CHR 0x0A]) of
                Some x \<Rightarrow> (Some (WriteFailed x), w1)
              | None \<Rightarrow> (None, w1))))"

definition GetLogs :: "Server \<Rightarrow> world \<Rightarrow> slice \<times> world" where
  "GetLogs server w =
     (case runningServers w (ID server) of
        None \<Rightarrow> makeSlice 0 w
      | Some h \<Rightarrow>
         (let sp = procs w h;
              (logs, w1) = makeSlice (sl_len (Logs sp)) w
          in (logs, goCopy logs (Logs sp) w1)))"

definition IsServerRunning :: "Server \<Rightarrow> world \<Rightarrow> bool" where
  "IsServerRunning server w = (runningServers w (ID server) \<noteq> None)"

text \<open>
  \<open>AddConsoleListener\<close>, without the keep-alive (read deadline and ping ticker), and
  \<open>RemoveConsoleListener\<close>, whose loop removes the first occurrence.
\<close>

definition AddConsoleListener :: "Server \<Rightarrow> nat \<Rightarrow> world \<Rightarrow> world" where
  "AddConsoleListener server conn w =
     (case runningServers w (ID server) of
        None \<Rightarrow> emit [WsWrite conn (''Error: Server is not running'' @ [CHR 0x0A]),
                       WsClose conn] w
      | Some h \<Rightarrow>
         (let w1 = w\<lparr>procs := (procs w)(h := (procs w h)
                         \<lparr>Clients := Clients (procs w h) @ [conn]\<rparr>)\<rparr>
          in emit (map (WsWrite conn) (sliceElems w1 (Logs (procs w1 h)))) w1))"

fun removeClient :: "nat \<Rightarrow> nat list \<Rightarrow> nat list" where
  "removeClient conn [] = []"
| "removeClient conn (client # rest) =
     (if client = conn then rest else client # removeClient conn rest)"

definition RemoveConsoleListener :: "Server \<Rightarrow> nat \<Rightarrow> world \<Rightarrow> world" where
  "RemoveConsoleListener server conn w =
     (case runningServers w (ID server) of
        None \<Rightarrow> w
      | Some h \<Rightarrow> w\<lparr>procs := (procs w)(h := (procs w h)
                       \<lparr>Clients := removeClient conn (Clients (procs w h))\<rparr>)\<rparr>)"

section \<open>The stream reader\<close>

text \<open>The part of the loop body under \<open>LogMux\<close>.\<close>

definition appendLog :: "env \<Rightarrow> nat \<Rightarrow> string \<Rightarrow> world \<Rightarrow> world" where
  "appendLog e h line w =
     (let (logs, w1) = goAppend e (Logs (procs w h)) line w;
          logs' = (if 1000 < sl_len logs then sliceFrom (sl_len logs - 1000) logs else logs)
      in w1\<lparr>procs := (procs w1)(h := (procs w1 h)\<lparr>Logs := logs'\<rparr>)\<rparr>)"

text \<open>
  The part under \<open>ClientMux\<close>.  The first loop writes the line to the clients from
  index \<open>i\<close> on and collects the indices of those whose write failed; the second
  removes these indices from the last to the first.
\<close>

fun writeLoop :: "env \<Rightarrow> string \<Rightarrow> nat list \<Rightarrow> nat \<Rightarrow> nat list \<Rightarrow> event list
                    \<Rightarrow> nat list \<times> event list" where
  "writeLoop e line [] i disconnectedClients out = (disconnectedClients, out)"
| "writeLoop e line (client # rest) i disconnectedClients out =
     writeLoop e line rest (Suc i)
       (if wsWrite e client line then disconnectedClients else disconnectedClients @ [i])
       (out @ [WsWrite client line])"

definition removeAt :: "nat \<Rightarrow> nat list \<Rightarrow> nat list" where
  "removeAt idx clients = take idx clients @ drop (Suc idx) clients"

definition broadcast :: "env \<Rightarrow> nat \<Rightarrow> string \<Rightarrow> world \<Rightarrow> world" where
  "broadcast e h line w =
     (let clients = Clients (procs w h);
          (disconnectedClients, out) = writeLoop e line clients 0 [] [];
          w1 = emit out w
      in w1\<lparr>procs := (procs w1)(h := (procs w1 h)
               \<lparr>Clients := foldr removeAt disconnectedClients clients\<rparr>)\<rparr>)"

text \<open>
  \<open>readOutput\<close> on the lines the scanner delivers, each with what the outside
  answers while it is handled.
\<close>

fun readOutput :: "(env \<times> string) list \<Rightarrow> nat \<Rightarrow> world \<Rightarrow> world" where
  "readOutput [] h w = w"
| "readOutput ((e, text) # rest) h w =
     (let line = stripAnsiCodes text
      in readOutput rest h (broadcast e h line (appendLog e h line w)))"

section \<open>The exit waiter\<close>

text \<open>What \<open>sp.Cmd.Wait()\<close> returns: nil, an \<open>*exec.ExitError\<close> with its code, or another error.\<close>

datatype waitResult = WaitNil | ExitError int | OtherError string

fun digitsOf :: "nat \<Rightarrow> string" where
  "digitsOf n =
     (if n < 10 then [char_of (48 + n)]
      else digitsOf (n div 10) @ [char_of (48 + n mod 10)])"

declare digitsOf.simps [simp del]

text \<open>The verb \<open>%d\<close> of \<open>fmt.Sprintf\<close>.\<close>

definition formatInt :: "int \<Rightarrow> string" where
  "formatInt i = (if i < 0 then CHR ''-'' # digitsOf (nat (- i)) else digitsOf (nat i))"

definition exitMessage :: "int \<Rightarrow> string" where
  "exitMessage exitCode =
     [CHR 0x0A] @ ''=== Server stopped (exit code: '' @ formatInt exitCode @ '') ===''
       @ [CHR 0x0A]"

definition exitCodeOf :: "waitResult \<Rightarrow> int" where
  "exitCodeOf r = (case r of ExitError c \<Rightarrow> c | _ \<Rightarrow> 0)"

text \<open>
  \<open>monitorProcess\<close> after \<open>Wait\<close> has returned.  It takes \<open>serverMux\<close> only for
  the removal from the table; the status write and the notification of the clients
  follow after the lock is released.  The two parts are given separately, and
  \<open>monitorProcess\<close> is the one after the other with nothing in between.
\<close>

definition monitorRemove :: "nat \<Rightarrow> world \<Rightarrow> world" where
  "monitorRemove h w =
     w\<lparr>runningServers := (runningServers w)(ID (Server (procs w h)) := None)\<rparr>"

definition monitorFinish :: "env \<Rightarrow> waitResult \<Rightarrow> nat \<Rightarrow> world \<Rightarrow> world" where
  "monitorFinish e r h w =
     (let (server', saveErr, w1) = SetStatus e ''offline'' (Server (procs w h)) w;
          w2 = w1\<lparr>procs := (procs w1)(h := (procs w1 h)\<lparr>Server := server'\<rparr>)\<rparr>
      in closeClients (exitMessage (exitCodeOf r)) h w2)"

definition monitorProcess :: "env \<Rightarrow> waitResult \<Rightarrow> nat \<Rightarrow> world \<Rightarrow> world" where
  "monitorProcess e r h w = monitorFinish e r h (monitorRemove h w)"

section \<open>Notions used in the statements\<close>

text \<open>
  A slice is well formed in a world when its array is allocated and its window, up to
  the capacity, lies inside the array.
\<close>

definition sliceOk :: "world \<Rightarrow> slice \<Rightarrow> bool" where
  "sliceOk w s \<longleftrightarrow>
     sl_arr s < nextAddr w \<and> sl_len s \<le> sl_cap s
     \<and> sl_off s + sl_cap s \<le> length (arrays w (sl_arr s))"

text \<open>Every handle's buffer is a well-formed slice.\<close>

definition logsOk :: "world \<Rightarrow> bool" where
  "logsOk w \<longleftrightarrow> (\<forall>h. sliceOk w (Logs (procs w h)))"

text \<open>The lines a handle's buffer holds.\<close>

definition logsOf :: "nat \<Rightarrow> world \<Rightarrow> string list" where
  "logsOf h w = sliceElems w (Logs (procs w h))"

text \<open>A sequence of appends to the buffer of one handle, in order.\<close>

fun appendLogs :: "(env \<times> string) list \<Rightarrow> nat \<Rightarrow> world \<Rightarrow> world" where
  "appendLogs [] h w = w"
| "appendLogs ((e, line) # rest) h w = appendLogs rest h (appendLog e h line w)"

text \<open>A sequence of broadcasts to the clients of one handle, in order.\<close>

fun broadcasts :: "(env \<times> string) list \<Rightarrow> nat \<Rightarrow> world \<Rightarrow> world" where
  "broadcasts [] h w = w"
| "broadcasts ((e, line) # rest) h w = broadcasts rest h (broadcast e h line w)"

text \<open>The text messages written to a connection in a stretch of the trace, in order.\<close>

fun linesSentTo :: "nat \<Rightarrow> event list \<Rightarrow> string list" where
  "linesSentTo c [] = []"
| "linesSentTo c (WsWrite c' m # evs) = (if c' = c then m # linesSentTo c evs else linesSentTo c evs)"
| "linesSentTo c (ev # evs) = linesSentTo c evs"

text \<open>The positions, counted from \<open>i\<close>, of the clients to which the write of the line fails.\<close>

fun failedAt :: "env \<Rightarrow> string \<Rightarrow> nat list \<Rightarrow> nat \<Rightarrow> nat list" where
  "failedAt e line [] i = []"
| "failedAt e line (c # cs) i =
     (if wsWrite e c line then [] else [i]) @ failedAt e line cs (Suc i)"

text \<open>
  The recorded status of the unit \<open>u\<close> is online exactly when the table has a handle
  for \<open>u\<close>; and the recorded start time of \<open>u\<close> is set exactly when its recorded
  status is online.
\<close>

definition statusAgrees :: "world \<Rightarrow> nat \<Rightarrow> bool" where
  "statusAgrees w u \<longleftrightarrow>
     (runningServers w u \<noteq> None) = (map_option Status (db w u) = Some ''online'')"

definition startTimeAgrees :: "world \<Rightarrow> nat \<Rightarrow> bool" where
  "startTimeAgrees w u \<longleftrightarrow>
     (case db w u of
        None \<Rightarrow> True
      | Some s \<Rightarrow> (StartedAt s \<noteq> None) = (Status s = ''online''))"

text \<open>The number a string of decimal digits denotes, and what a decimal digit is.\<close>

definition decimalValue :: "string \<Rightarrow> nat" where
  "decimalValue s = foldl (\<lambda>a c. 10 * a + (of_char c - 48)) 0 s"

definition isDigit :: "char \<Rightarrow> bool" where
  "isDigit c \<longleftrightarrow> 48 \<le> (of_char c :: nat) \<and> (of_char c :: nat) \<le> 57"

section \<open>A concrete unit and environment\<close>

text \<open>
  An environment in which everything succeeds, the store included, and the process
  does not exit by itself, a unit with identifier 1, the store holding it, and the world after the
  unit has been started from the initial one (its handle is at address 2, its buffer's
  array at address 1).
\<close>

definition exampleEnv :: env where
  "exampleEnv =
     \<lparr>clock = 100, stdinPipe = Inr 10, stdoutPipe = Inr 11, stderrPipe = Inr 12,
      cmdStart = Inr 4242, exitsWithin = (\<lambda>_. False), stdinWrite = (\<lambda>_ _. None),
      wsWrite = (\<lambda>_ _. True), growCap = (\<lambda>c. 2 * c), dbSave = (\<lambda>_. None)\<rparr>"

definition exampleServer :: Server where
  "exampleServer =
     \<lparr>ID = 1, Name = ''survival'', FolderPath = ''/srv/survival'',
      StartupCommand = ''java -jar server.jar'', Status = ''offline'', StartedAt = None,
      UserID = 1\<rparr>"

definition exampleStore :: "nat \<rightharpoonup> Server" where
  "exampleStore = [1 \<mapsto> exampleServer]"

definition startedWorld :: world where
  "startedWorld = snd (snd (StartServer exampleEnv exampleServer (initWorld exampleStore)))"

text \<open>The started world after the WebSocket connections 7 and 8 have been attached.\<close>

definition attachedWorld :: world where
  "attachedWorld =
     AddConsoleListener exampleServer 8 (AddConsoleListener exampleServer 7 startedWorld)"

text \<open>
  A later environment (a new process and new pipes), and the world reached from the
  started one when the process exits and the exit waiter has removed the table entry
  and released the lock, the unit is started again, and the exit waiter then goes on.
\<close>

definition exampleEnv2 :: env where
  "exampleEnv2 =
     exampleEnv\<lparr>clock := 200, stdinPipe := Inr 13, stdoutPipe := Inr 14, stderrPipe := Inr 15,
                cmdStart := Inr 4243\<rparr>"

definition racedWorld :: world where
  "racedWorld =
     monitorFinish exampleEnv2 (ExitError 1) 2
       (snd (snd (StartServer exampleEnv2 exampleServer (monitorRemove 2 startedWorld))))"

section \<open>The sanitizer\<close>

text \<open>
  On ASCII text the sanitizer does what its comment says: text without the escape
  byte is returned as it is, a sequence ESC \<open>[\<close> ... \<open>m\<close> is removed with
  everything in it, and an unterminated sequence is dropped to the end of the line.
\<close>

lemma stripAnsiCodes_colours:
  "stripAnsiCodes ([CHR 0x1B] @ ''[38;2;255;170;0mHello'' @ [CHR 0x1B] @ ''[0m'') = ''Hello''"
  by code_simp

lemma stripAnsiCodes_unterminated:
  "stripAnsiCodes (''abc'' @ [CHR 0x1B] @ ''[38;2;255'') = ''abc''"
  by code_simp

lemma stripLoop_plain_ascii:
  "\<forall>c \<in> set s. (of_char c :: nat) < 128 \<and> c \<noteq> CHR 0x1B \<Longrightarrow>
   stripLoop s False result = result @ s"
  by (induction s arbitrary: result) (auto simp: byteToString_def)

lemma stripAnsiCodes_plain_ascii:
  "\<forall>c \<in> set s. (of_char c :: nat) < 128 \<and> c \<noteq> CHR 0x1B \<Longrightarrow> stripAnsiCodes s = s"
  by (simp add: stripAnsiCodes_def stripLoop_plain_ascii)

lemma stripLoop_in_escape:
  "CHR 0x1B \<notin> set s \<Longrightarrow> CHR ''m'' \<notin> set s \<Longrightarrow>
   stripLoop (s @ CHR ''m'' # rest) True result = stripLoop rest False result"
  by (induction s arbitrary: result) auto

lemma stripAnsiCodes_removes_sequence:
  assumes "\<forall>c \<in> set pre. (of_char c :: nat) < 128 \<and> c \<noteq> CHR 0x1B"
    and "CHR 0x1B \<notin> set params" and "CHR ''m'' \<notin> set params"
    and "\<forall>c \<in> set post. (of_char c :: nat) < 128 \<and> c \<noteq> CHR 0x1B"
  shows "stripAnsiCodes (pre @ [CHR 0x1B, CHR ''[''] @ params @ [CHR ''m''] @ post) = pre @ post"
proof -
  have a: "stripLoop (pre @ t) False result = stripLoop t False (result @ pre)" for t result
    using assms(1) by (induction pre arbitrary: result) (auto simp: byteToString_def)
  have "stripAnsiCodes (pre @ [CHR 0x1B, CHR ''[''] @ params @ [CHR ''m''] @ post)
        = stripLoop ([CHR 0x1B, CHR ''[''] @ params @ [CHR ''m''] @ post) False pre"
    by (simp add: stripAnsiCodes_def a)
  also have "\<dots> = stripLoop (params @ CHR ''m'' # post) True pre" by simp
  also have "\<dots> = stripLoop post False pre"
    by (rule stripLoop_in_escape[OF assms(2,3)])
  also have "\<dots> = pre @ post" by (rule stripLoop_plain_ascii[OF assms(4)])
  finally show ?thesis .
qed

subsection \<open>Bytes outside ASCII\<close>

text \<open>
  C3. The sanitizer is to remove the sequences ESC \<open>[\<close> ... \<open>m\<close> and to preserve
  all other bytes, returning an input without escape sequences unchanged.  The line
  \<open>result += string(text[i])\<close> converts the byte as a code point, so a byte from 0x80
  on comes out as two bytes: the two bytes C3 A9 (the letter e with acute accent in
  UTF-8), which hold no escape sequence, come out as the four bytes C3 83 C2 A9.
\<close>

theorem stripAnsiCodes_non_ascii_changed:
  "stripAnsiCodes [CHR 0xC3, CHR 0xA9] = [CHR 0xC3, CHR 0x83, CHR 0xC2, CHR 0xA9]
   \<and> stripAnsiCodes [CHR 0xC3, CHR 0xA9] \<noteq> [CHR 0xC3, CHR 0xA9]"
  by code_simp

section \<open>Slices and the log buffer\<close>

lemma sliceElems_length: "sliceOk w s \<Longrightarrow> length (sliceElems w s) = sl_len s"
  by (auto simp: sliceOk_def sliceElems_def)

lemma goAppend_elems:
  assumes "sliceOk w s"
  shows "sliceElems (snd (goAppend e s x w)) (fst (goAppend e s x w)) = sliceElems w s @ [x]"
proof (cases "sl_len s < sl_cap s")
  case True
  let ?a = "arrays w (sl_arr s)"
  have len: "sl_off s + sl_len s < length ?a" using assms True by (simp add: sliceOk_def)
  have "take (Suc (sl_len s)) (drop (sl_off s) (?a[sl_off s + sl_len s := x]))
        = take (sl_len s) (drop (sl_off s) ?a) @ [x]"
    using len by (simp add: take_Suc_conv_app_nth drop_update_swap)
  then show ?thesis using True by (simp add: goAppend_def sliceElems_def)
next
  case False
  have "length (sliceElems w s) = sl_len s" using assms by (rule sliceElems_length)
  then show ?thesis using False
    by (simp add: goAppend_def Let_def sliceElems_def)
qed

lemma goAppend_ok:
  assumes "sliceOk w s"
  shows "sliceOk (snd (goAppend e s x w)) (fst (goAppend e s x w))"
proof (cases "sl_len s < sl_cap s")
  case True
  then show ?thesis using assms by (simp add: goAppend_def sliceOk_def)
next
  case False
  have "length (sliceElems w s) = sl_len s" using assms by (rule sliceElems_length)
  then show ?thesis using False
    by (simp add: goAppend_def Let_def sliceOk_def)
qed

lemma goAppend_len: "sl_len (fst (goAppend e s x w)) = Suc (sl_len s)"
  by (simp add: goAppend_def Let_def)

lemma sliceFrom_elems: "sliceElems w (sliceFrom lo s) = drop lo (sliceElems w s)"
  by (simp add: sliceFrom_def sliceElems_def drop_take add.commute)

lemma sliceFrom_ok: "lo \<le> sl_len s \<Longrightarrow> sliceOk w s \<Longrightarrow> sliceOk w (sliceFrom lo s)"
  by (auto simp: sliceFrom_def sliceOk_def)

lemma sliceElems_arrays: "arrays w1 = arrays w2 \<Longrightarrow> sliceElems w1 s = sliceElems w2 s"
  by (simp add: sliceElems_def)

lemma sliceOk_arrays:
  "arrays w1 = arrays w2 \<Longrightarrow> nextAddr w1 = nextAddr w2 \<Longrightarrow> sliceOk w1 s = sliceOk w2 s"
  by (simp add: sliceOk_def)

lemma appendLog_parts:
  assumes "goAppend e (Logs (procs w h)) x w = (s', w')"
  shows "Logs (procs (appendLog e h x w) h)
           = (if 1000 < sl_len s' then sliceFrom (sl_len s' - 1000) s' else s')"
    and "arrays (appendLog e h x w) = arrays w'"
    and "nextAddr (appendLog e h x w) = nextAddr w'"
  using assms by (simp_all add: appendLog_def)

lemma appendLog_logsOf:
  assumes "sliceOk w (Logs (procs w h))"
  shows "logsOf h (appendLog e h x w)
         = drop (Suc (length (logsOf h w)) - 1000) (logsOf h w @ [x])"
proof -
  obtain s' w' where g: "goAppend e (Logs (procs w h)) x w = (s', w')"
    by (cases "goAppend e (Logs (procs w h)) x w")
  have el: "sliceElems w' s' = logsOf h w @ [x]"
    using goAppend_elems[OF assms, of e x] g by (simp add: logsOf_def)
  have ok: "sliceOk w' s'" using goAppend_ok[OF assms, of e x] g by simp
  have len: "sl_len s' = Suc (length (logsOf h w))"
    using sliceElems_length[OF ok] el by simp
  have "logsOf h (appendLog e h x w)
        = sliceElems w' (if 1000 < sl_len s' then sliceFrom (sl_len s' - 1000) s' else s')"
    unfolding logsOf_def appendLog_parts(1)[OF g]
    by (rule sliceElems_arrays) (rule appendLog_parts(2)[OF g])
  also have "\<dots> = drop (sl_len s' - 1000) (sliceElems w' s')"
    by (simp add: sliceFrom_elems)
  finally show ?thesis by (simp add: el len)
qed

lemma appendLog_ok:
  assumes "sliceOk w (Logs (procs w h))"
  shows "sliceOk (appendLog e h x w) (Logs (procs (appendLog e h x w) h))"
proof -
  obtain s' w' where g: "goAppend e (Logs (procs w h)) x w = (s', w')"
    by (cases "goAppend e (Logs (procs w h)) x w")
  have ok: "sliceOk w' s'" using goAppend_ok[OF assms, of e x] g by simp
  then have "sliceOk w' (if 1000 < sl_len s' then sliceFrom (sl_len s' - 1000) s' else s')"
    by (simp add: sliceFrom_ok)
  then show ?thesis
    unfolding appendLog_parts(1)[OF g]
    using sliceOk_arrays[OF appendLog_parts(2)[OF g] appendLog_parts(3)[OF g]] by simp
qed

lemma drop_window:
  "drop (length (drop (length A - n) A @ R) - n) (drop (length A - n) A @ R)
   = drop (length (A @ R) - n) (A @ (R :: 'a list))"
proof (cases "length A \<le> n")
  case True
  then show ?thesis by simp
next
  case False
  then have "length (drop (length A - n) A) = n" by simp
  then show ?thesis using False by (simp add: add.commute)
qed

lemma appendLogs_logsOf:
  assumes "sliceOk w (Logs (procs w h))"
  shows "logsOf h (appendLogs els h w)
         = drop (length (logsOf h w @ map snd els) - 1000) (logsOf h w @ map snd els)
           \<or> 1000 < length (logsOf h w)"
  using assms
proof (induction els arbitrary: w)
  case Nil
  then show ?case by (cases "1000 < length (logsOf h w)") simp_all
next
  case (Cons p els)
  obtain e x where p: "p = (e, x)" by (cases p)
  let ?w1 = "appendLog e h x w"
  let ?L = "logsOf h w @ [x]"
  have l1: "logsOf h ?w1 = drop (length ?L - 1000) ?L"
    using appendLog_logsOf[OF Cons.prems] by simp
  then have short: "\<not> 1000 < length (logsOf h ?w1)" by simp
  have "logsOf h (appendLogs els h ?w1)
        = drop (length (logsOf h ?w1 @ map snd els) - 1000) (logsOf h ?w1 @ map snd els)"
    using Cons.IH[OF appendLog_ok[OF Cons.prems]] short by blast
  also have "\<dots> = drop (length (?L @ map snd els) - 1000) (?L @ map snd els)"
    unfolding l1 by (rule drop_window)
  finally show ?case using p by simp
qed


lemma appendLogs_ok:
  "sliceOk w (Logs (procs w h)) \<Longrightarrow>
   sliceOk (appendLogs els h w) (Logs (procs (appendLogs els h w) h))"
  by (induction els arbitrary: w) (auto simp: appendLog_ok)

lemma appendLog_table: "runningServers (appendLog e h x w) = runningServers w"
  by (simp add: appendLog_def goAppend_def Let_def split: prod.splits)

lemma appendLogs_table: "runningServers (appendLogs els h w) = runningServers w"
  by (induction els arbitrary: w) (auto simp: appendLog_table)

lemma goAppend_frame:
  assumes "sliceOk w s" and "a < nextAddr w" and "a \<noteq> sl_arr s"
  shows "arrays (snd (goAppend e s x w)) a = arrays w a"
    and "a < nextAddr (snd (goAppend e s x w))"
    and "a \<noteq> sl_arr (fst (goAppend e s x w))"
  using assms by (auto simp: goAppend_def Let_def)

lemma appendLog_frame:
  assumes "sliceOk w (Logs (procs w h))" and "a < nextAddr w"
    and "a \<noteq> sl_arr (Logs (procs w h))"
  shows "arrays (appendLog e h x w) a = arrays w a"
    and "a < nextAddr (appendLog e h x w)"
    and "a \<noteq> sl_arr (Logs (procs (appendLog e h x w) h))"
proof -
  obtain s' w' where g: "goAppend e (Logs (procs w h)) x w = (s', w')"
    by (cases "goAppend e (Logs (procs w h)) x w")
  note f = goAppend_frame[OF assms, of e x, unfolded g fst_conv snd_conv]
  show "arrays (appendLog e h x w) a = arrays w a"
    using f(1) by (simp add: appendLog_parts(2)[OF g])
  show "a < nextAddr (appendLog e h x w)"
    using f(2) by (simp add: appendLog_parts(3)[OF g])
  show "a \<noteq> sl_arr (Logs (procs (appendLog e h x w) h))"
    using f(3) by (simp add: appendLog_parts(1)[OF g] sliceFrom_def)
qed

lemma appendLogs_frame:
  assumes "sliceOk w (Logs (procs w h))" and "a < nextAddr w"
    and "a \<noteq> sl_arr (Logs (procs w h))"
  shows "arrays (appendLogs els h w) a = arrays w a"
  using assms
proof (induction els arbitrary: w)
  case Nil
  then show ?case by simp
next
  case (Cons p els)
  obtain e x where p: "p = (e, x)" by (cases p)
  have "arrays (appendLogs els h (appendLog e h x w)) a = arrays (appendLog e h x w) a"
    by (rule Cons.IH[OF appendLog_ok[OF Cons.prems(1)] appendLog_frame(2)[OF Cons.prems]
          appendLog_frame(3)[OF Cons.prems]])
  then show ?case using p appendLog_frame(1)[OF Cons.prems] by simp
qed

lemma GetLogs_None:
  "runningServers w (ID server) = None \<Longrightarrow>
   sliceElems (snd (GetLogs server w)) (fst (GetLogs server w)) = []"
  by (simp add: GetLogs_def makeSlice_def sliceElems_def)

lemma GetLogs_Some:
  assumes "runningServers w (ID server) = Some h" and "sliceOk w (Logs (procs w h))"
  shows "sliceElems (snd (GetLogs server w)) (fst (GetLogs server w)) = logsOf h w"
    and "sl_arr (fst (GetLogs server w)) = nextAddr w"
    and "nextAddr (snd (GetLogs server w)) = Suc (nextAddr w)"
    and "procs (snd (GetLogs server w)) = procs w"
    and "a \<noteq> nextAddr w \<Longrightarrow> arrays (snd (GetLogs server w)) a = arrays w a"
    and "fst (GetLogs server w)
           = \<lparr>sl_arr = nextAddr w, sl_off = 0, sl_len = length (logsOf h w),
              sl_cap = length (logsOf h w)\<rparr>"
    and "arrays (snd (GetLogs server w)) = (arrays w)(nextAddr w := logsOf h w)"
    and "runningServers (snd (GetLogs server w)) = runningServers w"
    and "db (snd (GetLogs server w)) = db w"
    and "trace (snd (GetLogs server w)) = trace w"
proof -
  let ?s = "Logs (procs w h)"
  have ne: "sl_arr ?s \<noteq> nextAddr w" using assms(2) by (simp add: sliceOk_def)
  have len: "length (sliceElems w ?s) = sl_len ?s" using assms(2) by (rule sliceElems_length)
  have same: "sliceElems (snd (makeSlice (sl_len ?s) w)) ?s = sliceElems w ?s"
    using ne by (simp add: makeSlice_def sliceElems_def)
  show "sliceElems (snd (GetLogs server w)) (fst (GetLogs server w)) = logsOf h w"
    using assms(1) len same
    by (simp add: GetLogs_def Let_def logsOf_def goCopy_def makeSlice_def sliceElems_def
        split: prod.splits)
  show "sl_arr (fst (GetLogs server w)) = nextAddr w"
    using assms(1) by (simp add: GetLogs_def Let_def goCopy_def makeSlice_def)
  show "nextAddr (snd (GetLogs server w)) = Suc (nextAddr w)"
    using assms(1) by (simp add: GetLogs_def Let_def goCopy_def makeSlice_def)
  show "procs (snd (GetLogs server w)) = procs w"
    using assms(1) by (simp add: GetLogs_def Let_def goCopy_def makeSlice_def)
  show "a \<noteq> nextAddr w \<Longrightarrow> arrays (snd (GetLogs server w)) a = arrays w a"
    using assms(1) by (simp add: GetLogs_def Let_def goCopy_def makeSlice_def)
  show "fst (GetLogs server w)
           = \<lparr>sl_arr = nextAddr w, sl_off = 0, sl_len = length (logsOf h w),
              sl_cap = length (logsOf h w)\<rparr>"
    using assms(1) len by (simp add: GetLogs_def Let_def goCopy_def makeSlice_def logsOf_def)
  show "arrays (snd (GetLogs server w)) = (arrays w)(nextAddr w := logsOf h w)"
    using assms(1) len same
    by (simp add: GetLogs_def Let_def goCopy_def makeSlice_def logsOf_def)
  show "runningServers (snd (GetLogs server w)) = runningServers w"
    and "db (snd (GetLogs server w)) = db w"
    and "trace (snd (GetLogs server w)) = trace w"
    using assms(1) by (simp_all add: GetLogs_def Let_def goCopy_def makeSlice_def)
qed

subsection \<open>The started example world\<close>

lemma Fields_example: "Fields ''java -jar server.jar'' = [''java'', ''-jar'', ''server.jar'']"
  by code_simp

lemma startedWorld_table: "runningServers startedWorld 1 = Some 2"
  by (simp add: startedWorld_def StartServer_def initWorld_def exampleEnv_def exampleServer_def
      exampleStore_def Fields_example makeSlice_def SetStatus_def emit_def Let_def)

lemma startedWorld_proc:
  "procs startedWorld 2 =
     \<lparr>Server = exampleServer\<lparr>Status := ''online'', StartedAt := Some 100\<rparr>,
      Cmd = \<lparr>Path = ''java'', Args = [''java'', ''-jar'', ''server.jar''],
             Dir = ''/srv/survival'', Process = Some 4242\<rparr>,
      Stdin = Some 10, Stdout = 11, Stderr = 12,
      Logs = \<lparr>sl_arr = 1, sl_off = 0, sl_len = 0, sl_cap = 0\<rparr>, Clients = []\<rparr>"
  by (simp add: startedWorld_def StartServer_def initWorld_def exampleEnv_def exampleServer_def
      exampleStore_def Fields_example makeSlice_def SetStatus_def emit_def Let_def)

lemma startedWorld_heap: "nextAddr startedWorld = 3" "arrays startedWorld 1 = []"
  by (simp_all add: startedWorld_def StartServer_def initWorld_def exampleEnv_def exampleServer_def
      exampleStore_def Fields_example makeSlice_def SetStatus_def emit_def Let_def)

lemma startedWorld_db: "db startedWorld 1 = Some (exampleServer\<lparr>Status := ''online'', StartedAt := Some 100\<rparr>)"
  by (simp add: startedWorld_def StartServer_def initWorld_def exampleEnv_def exampleServer_def
      exampleStore_def Fields_example makeSlice_def SetStatus_def emit_def Let_def)

lemma startedWorld_trace: "trace startedWorld = [GoReadOutput 2 11 False, GoReadOutput 2 12 True, GoMonitorProcess 2]"
  by (simp add: startedWorld_def StartServer_def initWorld_def exampleEnv_def exampleServer_def
      exampleStore_def Fields_example makeSlice_def SetStatus_def emit_def Let_def)

subsection \<open>The buffer keeps the last 1000 lines\<close>

text \<open>
  C2. From a handle whose buffer is empty (as \<open>StartServer\<close> creates it), any
  sequence of \<open>N\<close> appends through the reader's locked append leaves in the buffer
  exactly the last \<open>min N 1000\<close> lines, in the order of the appends; and \<open>GetLogs\<close>
  on the unit registered with that handle returns the same lines, which for
  \<open>N > 1000\<close> are the last 1000.  (The appends may come from both readers of the
  handle, in any interleaving; what one reader appends are the sanitized lines it
  scans, see \<open>readOutput_logs\<close> below.)
\<close>

theorem ring_buffer_keeps_last_1000:
  assumes "sliceOk w (Logs (procs w h))" and "logsOf h w = []"
  shows "logsOf h (appendLogs els h w)
           = drop (length els - min (length els) 1000) (map snd els)
         \<and> length (logsOf h (appendLogs els h w)) = min (length els) 1000
         \<and> (runningServers w (ID server) = Some h \<longrightarrow>
              sliceElems (snd (GetLogs server (appendLogs els h w)))
                         (fst (GetLogs server (appendLogs els h w)))
                = drop (length els - 1000) (map snd els))"
proof -
  have l: "logsOf h (appendLogs els h w) = drop (length els - 1000) (map snd els)"
    using appendLogs_logsOf[OF assms(1), of els] assms(2) by simp
  have g: "runningServers w (ID server) = Some h \<Longrightarrow>
           sliceElems (snd (GetLogs server (appendLogs els h w)))
                      (fst (GetLogs server (appendLogs els h w)))
             = logsOf h (appendLogs els h w)"
    by (rule GetLogs_Some(1)[OF _ appendLogs_ok[OF assms(1)]]) (simp add: appendLogs_table)
  have m: "length els - min (length els) 1000 = length els - 1000" by arith
  show ?thesis unfolding m using l g by auto
qed

theorem ring_buffer_keeps_last_1000_witness:
  "sliceOk startedWorld (Logs (procs startedWorld 2))
   \<and> logsOf 2 startedWorld = []
   \<and> runningServers startedWorld (ID exampleServer) = Some 2
   \<and> logsOf 2 (appendLogs (map (\<lambda>i. (exampleEnv, digitsOf i)) [0..<1002]) 2 startedWorld)
       = drop 2 (map digitsOf [0..<1002])
   \<and> length (logsOf 2 (appendLogs (map (\<lambda>i. (exampleEnv, digitsOf i)) [0..<1002]) 2
                          startedWorld)) = 1000
   \<and> sliceElems
        (snd (GetLogs exampleServer
               (appendLogs (map (\<lambda>i. (exampleEnv, digitsOf i)) [0..<1002]) 2 startedWorld)))
        (fst (GetLogs exampleServer
               (appendLogs (map (\<lambda>i. (exampleEnv, digitsOf i)) [0..<1002]) 2 startedWorld)))
       = drop 2 (map digitsOf [0..<1002])"
proof -
  have ok: "sliceOk startedWorld (Logs (procs startedWorld 2))"
    by (simp add: sliceOk_def startedWorld_proc startedWorld_heap)
  have empty: "logsOf 2 startedWorld = []"
    by (simp add: logsOf_def sliceElems_def startedWorld_proc)
  have reg: "runningServers startedWorld (ID exampleServer) = Some 2"
    using startedWorld_table by (simp add: exampleServer_def)
  have m: "map snd (map (\<lambda>i. (exampleEnv, digitsOf i)) [0..<1002]) = map digitsOf [0..<1002]"
    by (simp add: comp_def)
  show ?thesis
    using ring_buffer_keeps_last_1000[OF ok empty,
        of "map (\<lambda>i. (exampleEnv, digitsOf i)) [0..<1002]" exampleServer] ok empty reg
    unfolding m by simp
qed

subsection \<open>\<open>GetLogs\<close> returns a copy\<close>

lemma logs_after_three_appends:
  "Logs (procs (appendLogs [(exampleEnv, ''a''), (exampleEnv, ''b''), (exampleEnv, ''c'')] 2
                  startedWorld) 2)
     = \<lparr>sl_arr = 5, sl_off = 0, sl_len = 3, sl_cap = 4\<rparr>"
  "nextAddr (appendLogs [(exampleEnv, ''a''), (exampleEnv, ''b''), (exampleEnv, ''c'')] 2
               startedWorld) = 6"
  "arrays (appendLogs [(exampleEnv, ''a''), (exampleEnv, ''b''), (exampleEnv, ''c'')] 2
             startedWorld) 5 = [''a'', ''b'', ''c'', []]"
  by (simp_all add: appendLog_def goAppend_def sliceElems_def Let_def startedWorld_proc
      startedWorld_heap exampleEnv_def)

lemma appendLog_in_place:
  assumes "sl_len (Logs (procs w h)) < sl_cap (Logs (procs w h))"
    and "sl_len (Logs (procs w h)) < 1000"
  shows "Logs (procs (appendLog e h x w) h)
           = (Logs (procs w h))\<lparr>sl_len := Suc (sl_len (Logs (procs w h)))\<rparr>"
    and "arrays (appendLog e h x w)
           = (arrays w)(sl_arr (Logs (procs w h)) :=
               (arrays w (sl_arr (Logs (procs w h))))
                 [sl_off (Logs (procs w h)) + sl_len (Logs (procs w h)) := x])"
  using assms by (simp_all add: appendLog_def goAppend_def Let_def)

text \<open>
  C10. \<open>GetLogs\<close> is a total function whose result has no error component.  For a
  unit without a handle in the table it returns an empty slice.  For a running unit it
  returns a copy: a slice on an array that did not exist before the call, which holds
  the lines of the buffer and nothing else; the call changes nothing but that new
  array.  The returned slice and the buffer are on different arrays, so whatever is
  appended to the buffer after the call (in place or into a new array), the returned
  slice still holds the lines it held, and whatever is written to the returned slice's
  array, the buffer still holds its lines.
\<close>

theorem GetLogs_snapshot:
  "(runningServers w (ID server) = None \<longrightarrow>
      sliceElems (snd (GetLogs server w)) (fst (GetLogs server w)) = []
      \<and> sl_len (fst (GetLogs server w)) = 0)
   \<and> (\<forall>h. runningServers w (ID server) = Some h \<and> sliceOk w (Logs (procs w h)) \<longrightarrow>
        sliceElems (snd (GetLogs server w)) (fst (GetLogs server w)) = logsOf h w
        \<and> fst (GetLogs server w)
            = \<lparr>sl_arr = nextAddr w, sl_off = 0, sl_len = length (logsOf h w),
               sl_cap = length (logsOf h w)\<rparr>
        \<and> sl_arr (fst (GetLogs server w)) \<noteq> sl_arr (Logs (procs w h))
        \<and> arrays (snd (GetLogs server w)) = (arrays w)(nextAddr w := logsOf h w)
        \<and> nextAddr (snd (GetLogs server w)) = Suc (nextAddr w)
        \<and> procs (snd (GetLogs server w)) = procs w
        \<and> runningServers (snd (GetLogs server w)) = runningServers w
        \<and> db (snd (GetLogs server w)) = db w
        \<and> trace (snd (GetLogs server w)) = trace w
        \<and> (\<forall>els. sliceElems (appendLogs els h (snd (GetLogs server w)))
                              (fst (GetLogs server w)) = logsOf h w)
        \<and> (\<forall>xs. logsOf h ((snd (GetLogs server w))
                    \<lparr>arrays := (arrays (snd (GetLogs server w)))
                                 (sl_arr (fst (GetLogs server w)) := xs)\<rparr>) = logsOf h w))"
proof (intro conjI allI impI)
  assume "runningServers w (ID server) = None"
  then show "sliceElems (snd (GetLogs server w)) (fst (GetLogs server w)) = []"
    by (rule GetLogs_None)
next
  assume "runningServers w (ID server) = None"
  then show "sl_len (fst (GetLogs server w)) = 0"
    by (simp add: GetLogs_def makeSlice_def)
next
  fix h assume a: "runningServers w (ID server) = Some h \<and> sliceOk w (Logs (procs w h))"
  then show "sliceElems (snd (GetLogs server w)) (fst (GetLogs server w)) = logsOf h w"
    by (simp add: GetLogs_Some(1))
next
  fix h assume a: "runningServers w (ID server) = Some h \<and> sliceOk w (Logs (procs w h))"
  then show "fst (GetLogs server w)
            = \<lparr>sl_arr = nextAddr w, sl_off = 0, sl_len = length (logsOf h w),
               sl_cap = length (logsOf h w)\<rparr>"
    by (simp add: GetLogs_Some(6))
next
  fix h assume a: "runningServers w (ID server) = Some h \<and> sliceOk w (Logs (procs w h))"
  then show "sl_arr (fst (GetLogs server w)) \<noteq> sl_arr (Logs (procs w h))"
    by (simp add: GetLogs_Some(2) sliceOk_def)
next
  fix h assume a: "runningServers w (ID server) = Some h \<and> sliceOk w (Logs (procs w h))"
  then show "arrays (snd (GetLogs server w)) = (arrays w)(nextAddr w := logsOf h w)"
    by (simp add: GetLogs_Some(7))
next
  fix h assume a: "runningServers w (ID server) = Some h \<and> sliceOk w (Logs (procs w h))"
  then show "nextAddr (snd (GetLogs server w)) = Suc (nextAddr w)"
    by (simp add: GetLogs_Some(3))
next
  fix h assume a: "runningServers w (ID server) = Some h \<and> sliceOk w (Logs (procs w h))"
  then show "procs (snd (GetLogs server w)) = procs w"
    by (simp add: GetLogs_Some(4))
next
  fix h assume a: "runningServers w (ID server) = Some h \<and> sliceOk w (Logs (procs w h))"
  then show "runningServers (snd (GetLogs server w)) = runningServers w"
    by (simp add: GetLogs_Some(8))
next
  fix h assume a: "runningServers w (ID server) = Some h \<and> sliceOk w (Logs (procs w h))"
  then show "db (snd (GetLogs server w)) = db w"
    by (simp add: GetLogs_Some(9))
next
  fix h assume a: "runningServers w (ID server) = Some h \<and> sliceOk w (Logs (procs w h))"
  then show "trace (snd (GetLogs server w)) = trace w"
    by (simp add: GetLogs_Some(10))
next
  fix h els assume a: "runningServers w (ID server) = Some h \<and> sliceOk w (Logs (procs w h))"
  let ?r = "fst (GetLogs server w)" and ?w = "snd (GetLogs server w)"
  from a have reg: "runningServers w (ID server) = Some h"
    and ok: "sliceOk w (Logs (procs w h))" by simp_all
  note G = GetLogs_Some[OF reg ok]
  have lt: "sl_arr (Logs (procs w h)) < nextAddr w" using ok by (simp add: sliceOk_def)
  have ok': "sliceOk ?w (Logs (procs ?w h))"
    using ok lt G(5)[of "sl_arr (Logs (procs w h))"] by (simp add: sliceOk_def G(3) G(4))
  have fresh: "sl_arr ?r < nextAddr ?w" "sl_arr ?r \<noteq> sl_arr (Logs (procs ?w h))"
    using lt by (simp_all add: G(2) G(3) G(4))
  have "arrays (appendLogs els h ?w) (sl_arr ?r) = arrays ?w (sl_arr ?r)"
    by (rule appendLogs_frame[OF ok' fresh])
  then have "sliceElems (appendLogs els h ?w) ?r = sliceElems ?w ?r"
    by (simp add: sliceElems_def)
  then show "sliceElems (appendLogs els h ?w) ?r = logsOf h w" by (simp add: G(1))
next
  fix h xs assume a: "runningServers w (ID server) = Some h \<and> sliceOk w (Logs (procs w h))"
  let ?r = "fst (GetLogs server w)" and ?w = "snd (GetLogs server w)"
  from a have reg: "runningServers w (ID server) = Some h"
    and ok: "sliceOk w (Logs (procs w h))" by simp_all
  note G = GetLogs_Some[OF reg ok]
  have ne: "sl_arr (Logs (procs w h)) \<noteq> nextAddr w" using ok by (simp add: sliceOk_def)
  show "logsOf h (?w\<lparr>arrays := (arrays ?w)(sl_arr ?r := xs)\<rparr>) = logsOf h w"
    using ne by (simp add: logsOf_def sliceElems_def G(2) G(4) G(7))
qed

theorem GetLogs_snapshot_witness:
  "runningServers (initWorld exampleStore) (ID exampleServer) = None
   \<and> sliceElems (snd (GetLogs exampleServer (initWorld exampleStore)))
                  (fst (GetLogs exampleServer (initWorld exampleStore))) = []
   \<and> runningServers
        (appendLogs [(exampleEnv, ''a''), (exampleEnv, ''b''), (exampleEnv, ''c'')] 2 startedWorld)
        (ID exampleServer) = Some 2
   \<and> sliceOk
        (appendLogs [(exampleEnv, ''a''), (exampleEnv, ''b''), (exampleEnv, ''c'')] 2 startedWorld)
        (Logs (procs (appendLogs [(exampleEnv, ''a''), (exampleEnv, ''b''), (exampleEnv, ''c'')] 2
                        startedWorld) 2))
   \<and> Logs (procs (appendLogs [(exampleEnv, ''a''), (exampleEnv, ''b''), (exampleEnv, ''c'')] 2
                     startedWorld) 2)
       = \<lparr>sl_arr = 5, sl_off = 0, sl_len = 3, sl_cap = 4\<rparr>
   \<and> fst (GetLogs exampleServer
            (appendLogs [(exampleEnv, ''a''), (exampleEnv, ''b''), (exampleEnv, ''c'')] 2
               startedWorld))
       = \<lparr>sl_arr = 6, sl_off = 0, sl_len = 3, sl_cap = 3\<rparr>
   \<and> sliceElems
        (snd (GetLogs exampleServer
               (appendLogs [(exampleEnv, ''a''), (exampleEnv, ''b''), (exampleEnv, ''c'')] 2
                  startedWorld)))
        (fst (GetLogs exampleServer
               (appendLogs [(exampleEnv, ''a''), (exampleEnv, ''b''), (exampleEnv, ''c'')] 2
                  startedWorld)))
       = [''a'', ''b'', ''c'']
   \<and> Logs (procs (appendLog exampleEnv 2 ''d''
        (snd (GetLogs exampleServer
               (appendLogs [(exampleEnv, ''a''), (exampleEnv, ''b''), (exampleEnv, ''c'')] 2
                  startedWorld)))) 2)
       = \<lparr>sl_arr = 5, sl_off = 0, sl_len = 4, sl_cap = 4\<rparr>
   \<and> arrays (appendLog exampleEnv 2 ''d''
        (snd (GetLogs exampleServer
               (appendLogs [(exampleEnv, ''a''), (exampleEnv, ''b''), (exampleEnv, ''c'')] 2
                  startedWorld)))) 5
       = [''a'', ''b'', ''c'', ''d'']
   \<and> sliceElems
        (appendLogs [(exampleEnv, ''d'')] 2
          (snd (GetLogs exampleServer
                 (appendLogs [(exampleEnv, ''a''), (exampleEnv, ''b''), (exampleEnv, ''c'')] 2
                    startedWorld))))
        (fst (GetLogs exampleServer
               (appendLogs [(exampleEnv, ''a''), (exampleEnv, ''b''), (exampleEnv, ''c'')] 2
                  startedWorld)))
       = [''a'', ''b'', ''c'']
   \<and> logsOf 2
        ((snd (GetLogs exampleServer
                (appendLogs [(exampleEnv, ''a''), (exampleEnv, ''b''), (exampleEnv, ''c'')] 2
                   startedWorld)))
         \<lparr>arrays := (arrays (snd (GetLogs exampleServer
                (appendLogs [(exampleEnv, ''a''), (exampleEnv, ''b''), (exampleEnv, ''c'')] 2
                   startedWorld))))
              (sl_arr (fst (GetLogs exampleServer
                (appendLogs [(exampleEnv, ''a''), (exampleEnv, ''b''), (exampleEnv, ''c'')] 2
                   startedWorld))) := [''x'', ''y'', ''z''])\<rparr>)
       = [''a'', ''b'', ''c'']"
proof -
  let ?W = "appendLogs [(exampleEnv, ''a''), (exampleEnv, ''b''), (exampleEnv, ''c'')] 2
              startedWorld"
  let ?G = "GetLogs exampleServer ?W"
  have ok0: "sliceOk startedWorld (Logs (procs startedWorld 2))"
    by (simp add: sliceOk_def startedWorld_proc startedWorld_heap)
  have empty: "logsOf 2 startedWorld = []"
    by (simp add: logsOf_def sliceElems_def startedWorld_proc)
  have none: "runningServers (initWorld exampleStore) (ID exampleServer) = None"
    by (simp add: initWorld_def)
  have reg: "runningServers ?W (ID exampleServer) = Some 2"
    unfolding appendLogs_table using startedWorld_table by (simp add: exampleServer_def)
  have ok: "sliceOk ?W (Logs (procs ?W 2))" by (rule appendLogs_ok[OF ok0])
  have l: "logsOf 2 ?W = [''a'', ''b'', ''c'']"
    using appendLogs_logsOf[OF ok0,
        of "[(exampleEnv, ''a''), (exampleEnv, ''b''), (exampleEnv, ''c'')]"] empty
    by simp
  note L = logs_after_three_appends
  have a: "sliceElems (snd (GetLogs exampleServer (initWorld exampleStore)))
                      (fst (GetLogs exampleServer (initWorld exampleStore))) = []"
    using GetLogs_snapshot[of "initWorld exampleStore" exampleServer] none by blast
  have b: "sliceElems (snd ?G) (fst ?G) = logsOf 2 ?W
           \<and> fst ?G = \<lparr>sl_arr = nextAddr ?W, sl_off = 0, sl_len = length (logsOf 2 ?W),
                        sl_cap = length (logsOf 2 ?W)\<rparr>
           \<and> arrays (snd ?G) = (arrays ?W)(nextAddr ?W := logsOf 2 ?W)
           \<and> procs (snd ?G) = procs ?W
           \<and> (\<forall>els. sliceElems (appendLogs els 2 (snd ?G)) (fst ?G) = logsOf 2 ?W)
           \<and> (\<forall>xs. logsOf 2 ((snd ?G)\<lparr>arrays := (arrays (snd ?G))(sl_arr (fst ?G) := xs)\<rparr>)
                    = logsOf 2 ?W)"
    using GetLogs_snapshot[of ?W exampleServer] reg ok by blast
  from b have c: "sliceElems (appendLogs [(exampleEnv, ''d'')] 2 (snd ?G)) (fst ?G)
                  = logsOf 2 ?W"
    by blast
  from b have d: "logsOf 2 ((snd ?G)\<lparr>arrays := (arrays (snd ?G))
                     (sl_arr (fst ?G) := [''x'', ''y'', ''z''])\<rparr>) = logsOf 2 ?W"
    by blast
  have r: "fst ?G = \<lparr>sl_arr = 6, sl_off = 0, sl_len = 3, sl_cap = 3\<rparr>"
    using b by (simp add: l L(2) del: appendLogs.simps)
  have lg: "Logs (procs (snd ?G) 2) = \<lparr>sl_arr = 5, sl_off = 0, sl_len = 3, sl_cap = 4\<rparr>"
    using b by (simp add: L(1) del: appendLogs.simps)
  have ar: "arrays (snd ?G) 5 = [''a'', ''b'', ''c'', []]"
    using b by (simp add: L(2) L(3) del: appendLogs.simps)
  have ip: "Logs (procs (appendLog exampleEnv 2 ''d'' (snd ?G)) 2)
              = \<lparr>sl_arr = 5, sl_off = 0, sl_len = 4, sl_cap = 4\<rparr>"
    using appendLog_in_place(1)[of "snd ?G" 2 exampleEnv "''d''"]
    by (simp add: lg del: appendLogs.simps)
  have ia: "arrays (appendLog exampleEnv 2 ''d'' (snd ?G)) 5 = [''a'', ''b'', ''c'', ''d'']"
    using appendLog_in_place(2)[of "snd ?G" 2 exampleEnv "''d''"]
    by (simp add: lg ar del: appendLogs.simps)
  show ?thesis
    using none a reg ok L(1) r b ip ia c d unfolding l by blast
qed

section \<open>Starting\<close>

lemma StartServer_running:
  "runningServers w (ID server) \<noteq> None \<Longrightarrow>
   StartServer e server w = (Some AlreadyRunning, server, w)"
  by (simp add: StartServer_def)

lemma StartServer_no_fields:
  "runningServers w (ID server) = None \<Longrightarrow> Fields (StartupCommand server) = [] \<Longrightarrow>
   StartServer e server w = (Some InvalidCommand, server, w)"
  by (simp add: StartServer_def)

lemma StartServer_pipe_fails:
  "runningServers w (ID server) = None \<Longrightarrow> Fields (StartupCommand server) \<noteq> [] \<Longrightarrow>
   isl (stdinPipe e) \<or> isl (stdoutPipe e) \<or> isl (stderrPipe e) \<Longrightarrow>
   \<exists>p x. StartServer e server w = (Some (StreamSetupFailed p x), server, w)"
  by (auto simp: StartServer_def isl_def split: list.splits sum.splits)

lemma StartServer_launch_fails:
  "runningServers w (ID server) = None \<Longrightarrow> Fields (StartupCommand server) \<noteq> [] \<Longrightarrow>
   \<not> isl (stdinPipe e) \<Longrightarrow> \<not> isl (stdoutPipe e) \<Longrightarrow> \<not> isl (stderrPipe e) \<Longrightarrow>
   cmdStart e = Inl x \<Longrightarrow>
   StartServer e server w = (Some (LaunchFailed x), server, w)"
  by (auto simp: StartServer_def isl_def split: list.splits sum.splits)

lemma StartServer_success:
  assumes "runningServers w (ID server) = None" and "Fields (StartupCommand server) \<noteq> []"
    and "\<not> isl (stdinPipe e)" and "\<not> isl (stdoutPipe e)" and "\<not> isl (stderrPipe e)"
    and "\<not> isl (cmdStart e)"
  shows "fst (StartServer e server w) = None"
    and "fst (snd (StartServer e server w))
           = server\<lparr>Status := ''online'', StartedAt := Some (clock e)\<rparr>"
    and "runningServers (snd (snd (StartServer e server w)))
           = (runningServers w)(ID server \<mapsto> Suc (nextAddr w))"
    and "db (snd (snd (StartServer e server w)))
           = (if dbSave e (server\<lparr>Status := ''online'', StartedAt := Some (clock e)\<rparr>) = None
              then (db w)(ID server
                     \<mapsto> server\<lparr>Status := ''online'', StartedAt := Some (clock e)\<rparr>)
              else db w)"
    and "Server (procs (snd (snd (StartServer e server w))) (Suc (nextAddr w)))
           = server\<lparr>Status := ''online'', StartedAt := Some (clock e)\<rparr>"
  using assms
  by (auto simp: StartServer_def isl_def makeSlice_def SetStatus_def emit_def Let_def
      split: list.splits sum.splits option.splits)

text \<open>
  C1. \<open>StartServer\<close> returns \<open>AlreadyRunning\<close> exactly when the table has a handle
  for the unit's identifier; otherwise \<open>InvalidCommand\<close> exactly when the startup
  command has no fields; otherwise \<open>StreamSetupFailed\<close> exactly when one of the three
  pipe requests fails; otherwise \<open>LaunchFailed\<close> exactly when \<open>cmd.Start()\<close> fails.
  A failing call leaves the whole world and the unit as they were, so it registers no
  handle, and after a failure other than \<open>AlreadyRunning\<close> the unit has none.  A
  successful call (which runs under the table lock from beginning to end) leaves the
  handle in the table and the unit's status online in the struct, which is the one the
  handle keeps; the store holds the struct when the save succeeded and is as before
  when it failed (the call returns nil in both cases).  Any further start of a unit with that identifier in the resulting world returns
  \<open>AlreadyRunning\<close> and changes nothing.
\<close>

theorem StartServer_outcomes:
  assumes "StartServer e server w = (r, server', w')"
  shows "(r = Some AlreadyRunning \<longleftrightarrow> runningServers w (ID server) \<noteq> None)
    \<and> (r = Some InvalidCommand \<longleftrightarrow>
         runningServers w (ID server) = None \<and> length (Fields (StartupCommand server)) = 0)
    \<and> ((\<exists>p x. r = Some (StreamSetupFailed p x)) \<longleftrightarrow>
         runningServers w (ID server) = None \<and> length (Fields (StartupCommand server)) \<noteq> 0
         \<and> (isl (stdinPipe e) \<or> isl (stdoutPipe e) \<or> isl (stderrPipe e)))
    \<and> ((\<exists>x. r = Some (LaunchFailed x)) \<longleftrightarrow>
         runningServers w (ID server) = None \<and> length (Fields (StartupCommand server)) \<noteq> 0
         \<and> \<not> (isl (stdinPipe e) \<or> isl (stdoutPipe e) \<or> isl (stderrPipe e))
         \<and> isl (cmdStart e))
    \<and> (r \<noteq> None \<longrightarrow> w' = w \<and> server' = server)
    \<and> (r \<noteq> None \<and> r \<noteq> Some AlreadyRunning \<longrightarrow> runningServers w' (ID server) = None)
    \<and> (r = None \<longrightarrow>
         (\<exists>h. runningServers w' (ID server) = Some h \<and> Server (procs w' h) = server')
         \<and> Status server' = ''online''
         \<and> (dbSave e server' = None \<longrightarrow> db w' (ID server) = Some server')
         \<and> (dbSave e server' \<noteq> None \<longrightarrow> db w' = db w)
         \<and> (\<forall>e2 server2. ID server2 = ID server \<longrightarrow>
               StartServer e2 server2 w' = (Some AlreadyRunning, server2, w')))"
proof (cases "runningServers w (ID server) \<noteq> None")
  case True
  then show ?thesis using assms by (auto simp: StartServer_running)
next
  case nr: False
  show ?thesis
  proof (cases "Fields (StartupCommand server) = []")
    case True
    then show ?thesis using assms nr by (auto simp: StartServer_no_fields)
  next
    case fs: False
    show ?thesis
    proof (cases "isl (stdinPipe e) \<or> isl (stdoutPipe e) \<or> isl (stderrPipe e)")
      case True
      from StartServer_pipe_fails[OF _ fs True, of w] nr
      obtain p x where "StartServer e server w = (Some (StreamSetupFailed p x), server, w)"
        by auto
      then show ?thesis using assms nr fs True by auto
    next
      case ps: False
      show ?thesis
      proof (cases "cmdStart e")
        case (Inl x)
        have "StartServer e server w = (Some (LaunchFailed x), server, w)"
          using StartServer_launch_fails[OF _ fs _ _ _ Inl, of w] nr ps by auto
        then show ?thesis using assms nr fs ps Inl by auto
      next
        case (Inr pid)
        then have c: "\<not> isl (cmdStart e)" by simp
        have n: "runningServers w (ID server) = None" using nr by simp
        note S = StartServer_success[OF n fs _ _ _ c]
        have r: "r = None" using S(1)[of ] ps assms by simp
        have s': "server' = server\<lparr>Status := ''online'', StartedAt := Some (clock e)\<rparr>"
          using S(2) ps assms by simp
        have t: "runningServers w' = (runningServers w)(ID server \<mapsto> Suc (nextAddr w))"
          using S(3) ps assms by simp
        have d: "dbSave e server' = None \<Longrightarrow> db w' (ID server) = Some server'"
          using S(4) ps assms s' by simp
        have d': "dbSave e server' \<noteq> None \<Longrightarrow> db w' = db w"
          using S(4) ps assms s' by auto
        have p: "Server (procs w' (Suc (nextAddr w))) = server'"
          using S(5) ps assms s' by simp
        have again: "\<And>e2 server2. ID server2 = ID server \<Longrightarrow>
               StartServer e2 server2 w' = (Some AlreadyRunning, server2, w')"
          by (rule StartServer_running) (simp add: t)
        show ?thesis using r s' t d d' p again nr fs ps c by (auto simp: )
      qed
    qed
  qed
qed


lemma example_start:
  "StartServer exampleEnv exampleServer (initWorld exampleStore)
     = (None, exampleServer\<lparr>Status := ''online'', StartedAt := Some 100\<rparr>, startedWorld)"
proof -
  have "fst (StartServer exampleEnv exampleServer (initWorld exampleStore)) = None"
    and "fst (snd (StartServer exampleEnv exampleServer (initWorld exampleStore)))
         = exampleServer\<lparr>Status := ''online'', StartedAt := Some 100\<rparr>"
    by (simp_all add: StartServer_def initWorld_def exampleEnv_def exampleServer_def
        exampleStore_def Fields_example makeSlice_def SetStatus_def emit_def Let_def)
  then show ?thesis by (simp add: startedWorld_def prod_eq_iff)
qed

theorem StartServer_outcomes_witness:
  "StartServer exampleEnv exampleServer (initWorld exampleStore)
     = (None, exampleServer\<lparr>Status := ''online'', StartedAt := Some 100\<rparr>, startedWorld)
   \<and> runningServers (initWorld exampleStore) (ID exampleServer) = None
   \<and> runningServers startedWorld (ID exampleServer) = Some 2
   \<and> db startedWorld (ID exampleServer)
       = Some (exampleServer\<lparr>Status := ''online'', StartedAt := Some 100\<rparr>)
   \<and> StartServer exampleEnv exampleServer startedWorld
       = (Some AlreadyRunning, exampleServer, startedWorld)
   \<and> StartServer (exampleEnv\<lparr>cmdStart := Inl ''no such file''\<rparr>) exampleServer
         (initWorld exampleStore)
       = (Some (LaunchFailed ''no such file''), exampleServer, initWorld exampleStore)
   \<and> fst (StartServer (exampleEnv\<lparr>dbSave := \<lambda>_. Some ''database is locked''\<rparr>)
             exampleServer (initWorld exampleStore)) = None
   \<and> fst (snd (StartServer (exampleEnv\<lparr>dbSave := \<lambda>_. Some ''database is locked''\<rparr>)
                  exampleServer (initWorld exampleStore)))
       = exampleServer\<lparr>Status := ''online'', StartedAt := Some 100\<rparr>
   \<and> db (snd (snd (StartServer (exampleEnv\<lparr>dbSave := \<lambda>_. Some ''database is locked''\<rparr>)
                       exampleServer (initWorld exampleStore))))
       = db (initWorld exampleStore)"
proof -
  let ?F = "StartServer (exampleEnv\<lparr>dbSave := \<lambda>_. Some ''database is locked''\<rparr>)
              exampleServer (initWorld exampleStore)"
  note T = StartServer_outcomes[OF example_start]
  have i: "ID exampleServer = 1" by (simp add: exampleServer_def)
  have a: "StartServer exampleEnv exampleServer startedWorld
             = (Some AlreadyRunning, exampleServer, startedWorld)"
    using T by blast
  have sv: "dbSave exampleEnv (exampleServer\<lparr>Status := ''online'', StartedAt := Some 100\<rparr>)
            = None"
    by (simp add: exampleEnv_def)
  have b: "db startedWorld (ID exampleServer)
             = Some (exampleServer\<lparr>Status := ''online'', StartedAt := Some 100\<rparr>)"
    using T sv by blast
  have c: "runningServers startedWorld (ID exampleServer) = Some 2"
    unfolding i by (rule startedWorld_table)
  have d: "runningServers (initWorld exampleStore) (ID exampleServer) = None"
    by (simp add: initWorld_def)
  have f: "StartServer (exampleEnv\<lparr>cmdStart := Inl ''no such file''\<rparr>) exampleServer
             (initWorld exampleStore)
           = (Some (LaunchFailed ''no such file''), exampleServer, initWorld exampleStore)"
    by (simp add: StartServer_def initWorld_def exampleEnv_def exampleServer_def
        Fields_example)
  have g: "fst ?F = None"
    and g': "fst (snd ?F) = exampleServer\<lparr>Status := ''online'', StartedAt := Some 100\<rparr>"
    by (simp_all add: StartServer_def initWorld_def exampleEnv_def exampleServer_def
        exampleStore_def Fields_example makeSlice_def SetStatus_def emit_def Let_def)
  have e': "?F = (fst ?F, fst (snd ?F), snd (snd ?F))" by simp
  have fl: "dbSave (exampleEnv\<lparr>dbSave := \<lambda>_. Some ''database is locked''\<rparr>) (fst (snd ?F))
            \<noteq> None"
    by simp
  have k: "db (snd (snd ?F)) = db (initWorld exampleStore)"
    using StartServer_outcomes[OF e'] g fl by blast
  show ?thesis using example_start a b c d f g g' k by blast
qed

section \<open>Sending a command\<close>

text \<open>
  C9. \<open>SendCommand\<close> returns \<open>NotRunning\<close> exactly when the table has no handle for
  the unit, \<open>StdinUnavailable\<close> exactly when there is a handle whose input stream is
  nil, and \<open>WriteFailed\<close> exactly when the write to the input stream returns an
  error; otherwise it returns nil.  Whenever it reaches the write, the one thing it
  does is to write the command followed by one newline to the process's input
  stream.  The table, the handles (with their buffers and client lists), the arrays
  and the store are the same after the call as before.
\<close>

theorem SendCommand_outcomes:
  assumes "SendCommand e server command w = (r, w')"
  shows "(r = Some NotRunning \<longleftrightarrow> runningServers w (ID server) = None)
    \<and> (r = Some StdinUnavailable \<longleftrightarrow>
         (\<exists>h. runningServers w (ID server) = Some h \<and> Stdin (procs w h) = None))
    \<and> ((\<exists>x. r = Some (WriteFailed x)) \<longleftrightarrow>
         (\<exists>h fd. runningServers w (ID server) = Some h \<and> Stdin (procs w h) = Some fd
                 \<and> stdinWrite e fd (command @ [CHR 0x0A]) \<noteq> None))
    \<and> (r = None \<longleftrightarrow>
         (\<exists>h fd. runningServers w (ID server) = Some h \<and> Stdin (procs w h) = Some fd
                 \<and> stdinWrite e fd (command @ [CHR 0x0A]) = None))
    \<and> (\<forall>h fd. runningServers w (ID server) = Some h \<and> Stdin (procs w h) = Some fd \<longrightarrow>
          trace w' = trace w @ [StdinWrite fd (command @ [CHR 0x0A])])
    \<and> (r = Some NotRunning \<or> r = Some StdinUnavailable \<longrightarrow> w' = w)
    \<and> runningServers w' = runningServers w \<and> procs w' = procs w
    \<and> arrays w' = arrays w \<and> nextAddr w' = nextAddr w \<and> db w' = db w"
  using assms
  by (auto simp: SendCommand_def emit_def Let_def split: option.splits)

theorem SendCommand_outcomes_witness:
  "SendCommand exampleEnv exampleServer ''say hi'' startedWorld
     = (None, emit [StdinWrite 10 (''say hi'' @ [CHR 0x0A])] startedWorld)
   \<and> runningServers startedWorld (ID exampleServer) = Some 2
   \<and> Stdin (procs startedWorld 2) = Some 10
   \<and> trace (emit [StdinWrite 10 (''say hi'' @ [CHR 0x0A])] startedWorld)
       = trace startedWorld @ [StdinWrite 10 (''say hi'' @ [CHR 0x0A])]
   \<and> runningServers (emit [StdinWrite 10 (''say hi'' @ [CHR 0x0A])] startedWorld)
       = runningServers startedWorld
   \<and> procs (emit [StdinWrite 10 (''say hi'' @ [CHR 0x0A])] startedWorld) = procs startedWorld
   \<and> SendCommand exampleEnv exampleServer ''say hi'' (initWorld exampleStore)
       = (Some NotRunning, initWorld exampleStore)"
proof -
  have i: "ID exampleServer = 1" by (simp add: exampleServer_def)
  have reg: "runningServers startedWorld (ID exampleServer) = Some 2"
    unfolding i by (rule startedWorld_table)
  have fd: "Stdin (procs startedWorld 2) = Some 10" by (simp add: startedWorld_proc)
  have ok: "stdinWrite exampleEnv 10 (''say hi'' @ [CHR 0x0A]) = None"
    by (simp add: exampleEnv_def)
  have s: "SendCommand exampleEnv exampleServer ''say hi'' startedWorld
           = (None, emit [StdinWrite 10 (''say hi'' @ [CHR 0x0A])] startedWorld)"
    using reg fd ok by (simp add: SendCommand_def)
  have n: "SendCommand exampleEnv exampleServer ''say hi'' (initWorld exampleStore)
           = (Some NotRunning, initWorld exampleStore)"
    by (simp add: SendCommand_def initWorld_def)
  note T = SendCommand_outcomes[OF s]
  have t: "trace (emit [StdinWrite 10 (''say hi'' @ [CHR 0x0A])] startedWorld)
           = trace startedWorld @ [StdinWrite 10 (''say hi'' @ [CHR 0x0A])]"
    using T reg fd by blast
  have u: "runningServers (emit [StdinWrite 10 (''say hi'' @ [CHR 0x0A])] startedWorld)
             = runningServers startedWorld"
      "procs (emit [StdinWrite 10 (''say hi'' @ [CHR 0x0A])] startedWorld) = procs startedWorld"
    using T by blast+
  show ?thesis using s reg fd t u n by blast
qed

section \<open>Stopping\<close>

lemma attachedWorld_table: "runningServers attachedWorld 1 = Some 2"
  using startedWorld_table
  by (simp add: attachedWorld_def AddConsoleListener_def exampleServer_def emit_def Let_def)

lemma attachedWorld_proc:
  "procs attachedWorld 2 =
     \<lparr>Server = exampleServer\<lparr>Status := ''online'', StartedAt := Some 100\<rparr>,
      Cmd = \<lparr>Path = ''java'', Args = [''java'', ''-jar'', ''server.jar''],
             Dir = ''/srv/survival'', Process = Some 4242\<rparr>,
      Stdin = Some 10, Stdout = 11, Stderr = 12,
      Logs = \<lparr>sl_arr = 1, sl_off = 0, sl_len = 0, sl_cap = 0\<rparr>, Clients = [7, 8]\<rparr>"
  using startedWorld_table
  by (simp add: attachedWorld_def AddConsoleListener_def exampleServer_def emit_def Let_def
      startedWorld_proc)

lemma attachedWorld_rest:
  "trace attachedWorld = trace startedWorld" "db attachedWorld = db startedWorld"
  "arrays attachedWorld = arrays startedWorld" "nextAddr attachedWorld = nextAddr startedWorld"
  "runningServers attachedWorld = runningServers startedWorld"
  using startedWorld_table
  by (simp_all add: attachedWorld_def AddConsoleListener_def exampleServer_def emit_def Let_def
      startedWorld_proc sliceElems_def)

lemma closeClients_fields:
  "runningServers (closeClients msg h w) = runningServers w"
  "db (closeClients msg h w) = db w"
  "arrays (closeClients msg h w) = arrays w"
  "nextAddr (closeClients msg h w) = nextAddr w"
  "Clients (procs (closeClients msg h w) h) = []"
  "h' \<noteq> h \<Longrightarrow> procs (closeClients msg h w) h' = procs w h'"
  "Server (procs (closeClients msg h w) h') = Server (procs w h')"
  "Logs (procs (closeClients msg h w) h') = Logs (procs w h')"
  "trace (closeClients msg h w)
     = trace w @ concat (map (\<lambda>client. [WsWrite client msg, WsClose client])
                              (Clients (procs w h)))"
  by (simp_all add: closeClients_def emit_def Let_def)

lemma StopServer_not_running:
  "runningServers w (ID server) = None \<Longrightarrow> StopServer e server w = (Some NotRunning, server, w)"
  by (simp add: StopServer_def)

lemma StopServer_running:
  assumes "runningServers w (ID server) = Some h"
  shows "fst (StopServer e server w) = None"
    and "fst (snd (StopServer e server w)) = server\<lparr>Status := ''offline'', StartedAt := None\<rparr>"
    and "runningServers (snd (snd (StopServer e server w)))
           = (runningServers w)(ID server := None)"
    and "db (snd (snd (StopServer e server w)))
           = (if dbSave e (server\<lparr>Status := ''offline'', StartedAt := None\<rparr>) = None
              then (db w)(ID server \<mapsto> server\<lparr>Status := ''offline'', StartedAt := None\<rparr>)
              else db w)"
    and "Clients (procs (snd (snd (StopServer e server w))) h) = []"
    and "trace (snd (snd (StopServer e server w)))
           = trace w
             @ (case Stdin (procs w h) of None \<Rightarrow> []
                | Some fd \<Rightarrow> [StdinWrite fd (''stop'' @ [CHR 0x0A]),
                               StdinWrite fd (''end'' @ [CHR 0x0A])])
             @ (if exitsWithin e 30 then []
                else case Process (Cmd (procs w h)) of None \<Rightarrow> [] | Some pid \<Rightarrow> [ProcKill pid])
             @ concat (map (\<lambda>client. [WsWrite client stoppedMessage, WsClose client])
                           (Clients (procs w h)))"
  using assms
  by (auto simp: StopServer_def SetStatus_def closeClients_def emit_def Let_def
      split: option.splits)

text \<open>
  C4. \<open>StopServer\<close> returns \<open>NotRunning\<close> exactly when the table has no handle for
  the unit, and then changes nothing.  With a handle it returns nil, whether
  \<open>Wait\<close> delivers within the 30 seconds or not; afterwards the unit is not in the
  table, its status is offline and its start time is unset in the struct, and the
  handle's client list is empty.  The store holds the struct when the save succeeded
  and is as before when it failed (the call returns nil in both cases).  What the call does is, in this
  order: write the two shutdown commands to the input stream (a handle has one, as
  \<open>StartServer\<close> creates it), kill the process if it did not exit within 30
  seconds, and send each client the stop message and close it.
\<close>

theorem StopServer_outcomes:
  assumes "StopServer e server w = (r, server', w')"
  shows "(r = Some NotRunning \<longleftrightarrow> runningServers w (ID server) = None)
    \<and> (r = None \<longleftrightarrow> runningServers w (ID server) \<noteq> None)
    \<and> (r = Some NotRunning \<longrightarrow> w' = w \<and> server' = server)
    \<and> (\<forall>h. runningServers w (ID server) = Some h \<longrightarrow>
          runningServers w' (ID server) = None
          \<and> Status server' = ''offline'' \<and> StartedAt server' = None
          \<and> (dbSave e server' = None \<longrightarrow> db w' (ID server) = Some server')
          \<and> (dbSave e server' \<noteq> None \<longrightarrow> db w' = db w)
          \<and> Clients (procs w' h) = []
          \<and> trace w' = trace w
              @ (case Stdin (procs w h) of
                   None \<Rightarrow> []
                 | Some fd \<Rightarrow> [StdinWrite fd (''stop'' @ [CHR 0x0A]),
                                StdinWrite fd (''end'' @ [CHR 0x0A])])
              @ (if exitsWithin e 30 then []
                 else case Process (Cmd (procs w h)) of
                        None \<Rightarrow> []
                      | Some pid \<Rightarrow> [ProcKill pid])
              @ concat (map (\<lambda>client. [WsWrite client stoppedMessage, WsClose client])
                            (Clients (procs w h))))"
proof (cases "runningServers w (ID server)")
  case None
  then show ?thesis using assms by (auto simp: StopServer_not_running)
next
  case (Some h)
  note S = StopServer_running[OF Some, of e]
  have r: "r = None" using S(1) assms by simp
  have s: "server' = server\<lparr>Status := ''offline'', StartedAt := None\<rparr>"
    using S(2) assms by simp
  have t: "runningServers w' (ID server) = None" using S(3) assms by simp
  have d: "dbSave e server' = None \<Longrightarrow> db w' (ID server) = Some server'"
    using S(4) assms s by simp
  have d': "dbSave e server' \<noteq> None \<Longrightarrow> db w' = db w"
    using S(4) assms s by auto
  have c: "Clients (procs w' h) = []" using S(5) assms by simp
  have tr: "trace w' = trace w
        @ (case Stdin (procs w h) of
             None \<Rightarrow> []
           | Some fd \<Rightarrow> [StdinWrite fd (''stop'' @ [CHR 0x0A]),
                          StdinWrite fd (''end'' @ [CHR 0x0A])])
        @ (if exitsWithin e 30 then []
           else case Process (Cmd (procs w h)) of
                  None \<Rightarrow> []
                | Some pid \<Rightarrow> [ProcKill pid])
        @ concat (map (\<lambda>client. [WsWrite client stoppedMessage, WsClose client])
                      (Clients (procs w h)))"
    using S(6) assms by simp
  show ?thesis using Some r s t d d' c tr by auto
qed


theorem StopServer_outcomes_witness:
  "runningServers attachedWorld (ID exampleServer) = Some 2
   \<and> Stdin (procs attachedWorld 2) = Some 10
   \<and> Process (Cmd (procs attachedWorld 2)) = Some 4242
   \<and> Clients (procs attachedWorld 2) = [7, 8]
   \<and> \<not> exitsWithin exampleEnv 30
   \<and> fst (StopServer exampleEnv exampleServer attachedWorld) = None
   \<and> runningServers (snd (snd (StopServer exampleEnv exampleServer attachedWorld)))
        (ID exampleServer) = None
   \<and> db (snd (snd (StopServer exampleEnv exampleServer attachedWorld))) (ID exampleServer)
       = Some (exampleServer\<lparr>Status := ''offline'', StartedAt := None\<rparr>)
   \<and> Clients (procs (snd (snd (StopServer exampleEnv exampleServer attachedWorld))) 2) = []
   \<and> trace (snd (snd (StopServer exampleEnv exampleServer attachedWorld)))
       = trace attachedWorld
         @ [StdinWrite 10 (''stop'' @ [CHR 0x0A]), StdinWrite 10 (''end'' @ [CHR 0x0A]),
            ProcKill 4242,
            WsWrite 7 stoppedMessage, WsClose 7, WsWrite 8 stoppedMessage, WsClose 8]
   \<and> StopServer exampleEnv exampleServer (initWorld exampleStore)
       = (Some NotRunning, exampleServer, initWorld exampleStore)
   \<and> fst (snd (StopServer (exampleEnv\<lparr>dbSave := \<lambda>_. Some ''database is locked''\<rparr>)
                  exampleServer attachedWorld))
       = exampleServer\<lparr>Status := ''offline'', StartedAt := None\<rparr>
   \<and> db (snd (snd (StopServer (exampleEnv\<lparr>dbSave := \<lambda>_. Some ''database is locked''\<rparr>)
                       exampleServer attachedWorld)))
       = db attachedWorld"
proof -
  let ?R = "StopServer exampleEnv exampleServer attachedWorld"
  let ?F = "StopServer (exampleEnv\<lparr>dbSave := \<lambda>_. Some ''database is locked''\<rparr>)
              exampleServer attachedWorld"
  have i: "ID exampleServer = 1" by (simp add: exampleServer_def)
  have reg: "runningServers attachedWorld (ID exampleServer) = Some 2"
    unfolding i by (rule attachedWorld_table)
  have fd: "Stdin (procs attachedWorld 2) = Some 10"
    and pid: "Process (Cmd (procs attachedWorld 2)) = Some 4242"
    and cl: "Clients (procs attachedWorld 2) = [7, 8]"
    by (simp_all add: attachedWorld_proc)
  have ex: "\<not> exitsWithin exampleEnv 30" by (simp add: exampleEnv_def)
  have e: "?R = (fst ?R, fst (snd ?R), snd (snd ?R))" by simp
  note T = StopServer_outcomes[OF e]
  have r: "fst ?R = None" using T reg by blast
  from T reg have U: "runningServers (snd (snd ?R)) (ID exampleServer) = None
          \<and> Status (fst (snd ?R)) = ''offline'' \<and> StartedAt (fst (snd ?R)) = None
          \<and> (dbSave exampleEnv (fst (snd ?R)) = None \<longrightarrow>
                db (snd (snd ?R)) (ID exampleServer) = Some (fst (snd ?R)))
          \<and> (dbSave exampleEnv (fst (snd ?R)) \<noteq> None \<longrightarrow> db (snd (snd ?R)) = db attachedWorld)
          \<and> Clients (procs (snd (snd ?R)) 2) = []
          \<and> trace (snd (snd ?R)) = trace attachedWorld
              @ (case Stdin (procs attachedWorld 2) of
                   None \<Rightarrow> []
                 | Some fd \<Rightarrow> [StdinWrite fd (''stop'' @ [CHR 0x0A]),
                                StdinWrite fd (''end'' @ [CHR 0x0A])])
              @ (if exitsWithin exampleEnv 30 then []
                 else case Process (Cmd (procs attachedWorld 2)) of
                        None \<Rightarrow> []
                      | Some pid \<Rightarrow> [ProcKill pid])
              @ concat (map (\<lambda>client. [WsWrite client stoppedMessage, WsClose client])
                            (Clients (procs attachedWorld 2)))"
    by blast
  have s: "fst (snd ?R) = exampleServer\<lparr>Status := ''offline'', StartedAt := None\<rparr>"
    using reg by (simp add: StopServer_running(2))
  have tr: "trace (snd (snd ?R)) = trace attachedWorld
         @ [StdinWrite 10 (''stop'' @ [CHR 0x0A]), StdinWrite 10 (''end'' @ [CHR 0x0A]),
            ProcKill 4242,
            WsWrite 7 stoppedMessage, WsClose 7, WsWrite 8 stoppedMessage, WsClose 8]"
    using U fd pid ex cl by simp
  have n: "StopServer exampleEnv exampleServer (initWorld exampleStore)
       = (Some NotRunning, exampleServer, initWorld exampleStore)"
    by (simp add: StopServer_def initWorld_def)
  have sv: "dbSave exampleEnv (fst (snd ?R)) = None" by (simp add: exampleEnv_def)
  have fl: "dbSave (exampleEnv\<lparr>dbSave := \<lambda>_. Some ''database is locked''\<rparr>)
              (exampleServer\<lparr>Status := ''offline'', StartedAt := None\<rparr>) \<noteq> None"
    by simp
  have e': "?F = (fst ?F, fst (snd ?F), snd (snd ?F))"
    by simp
  note T' = StopServer_outcomes[OF e']
  have s'': "fst (snd ?F) = exampleServer\<lparr>Status := ''offline'', StartedAt := None\<rparr>"
    using reg by (simp add: StopServer_running(2))
  have keep: "db (snd (snd ?F)) = db attachedWorld"
    using T' reg fl unfolding s'' by blast
  show ?thesis using reg fd pid cl ex r U s sv tr n keep s'' by simp
qed

section \<open>Restarting\<close>

lemma StartServer_never_NotRunning: "fst (StartServer e server w) \<noteq> Some NotRunning"
  by (auto simp: StartServer_def Let_def split: list.splits sum.splits prod.splits)

lemma StartServer_AlreadyRunning_iff:
  "fst (StartServer e server w) = Some AlreadyRunning \<longleftrightarrow> runningServers w (ID server) \<noteq> None"
  by (auto simp: StartServer_def Let_def split: list.splits sum.splits prod.splits)

text \<open>
  C8. On a unit without a handle in the table, for which \<open>StopServer\<close> reports
  \<open>NotRunning\<close>, \<open>RestartServer\<close> is \<open>StartServer\<close>: the same result and the same
  world.  On a unit with a handle it is \<open>StopServer\<close> (which returns nil), a sleep
  of 2 seconds, and \<open>StartServer\<close> on what the stop left, whose result it returns.
  In neither case does it return \<open>NotRunning\<close>, nor \<open>AlreadyRunning\<close>.
\<close>

theorem RestartServer_outcomes:
  "(runningServers w (ID server) = None \<longrightarrow>
      RestartServer e server w = StartServer e server w)
   \<and> (runningServers w (ID server) \<noteq> None \<longrightarrow>
        fst (StopServer e server w) = None
        \<and> RestartServer e server w
            = StartServer e (fst (snd (StopServer e server w)))
                (emit [Sleep 2] (snd (snd (StopServer e server w)))))
   \<and> fst (RestartServer e server w) \<noteq> Some NotRunning
   \<and> fst (RestartServer e server w) \<noteq> Some AlreadyRunning"
proof (cases "runningServers w (ID server)")
  case None
  have "RestartServer e server w = StartServer e server w"
    using None by (simp add: RestartServer_def StopServer_not_running)
  then show ?thesis
    using None StartServer_never_NotRunning[of e server w]
      StartServer_AlreadyRunning_iff[of e server w] by simp
next
  case (Some h)
  let ?S = "StopServer e server w"
  note R = StopServer_running[OF Some, of e]
  have eq: "RestartServer e server w
            = StartServer e (fst (snd ?S)) (emit [Sleep 2] (snd (snd ?S)))"
    using R(1) by (auto simp: RestartServer_def split: prod.splits)
  have "runningServers (emit [Sleep 2] (snd (snd ?S))) (ID (fst (snd ?S))) = None"
    by (simp add: emit_def R(2) R(3))
  then have "fst (StartServer e (fst (snd ?S)) (emit [Sleep 2] (snd (snd ?S))))
             \<noteq> Some AlreadyRunning"
    by (simp add: StartServer_AlreadyRunning_iff)
  then show ?thesis
    using Some eq R(1)
      StartServer_never_NotRunning[of e "fst (snd ?S)" "emit [Sleep 2] (snd (snd ?S))"]
    by simp
qed

theorem RestartServer_outcomes_witness:
  "runningServers (initWorld exampleStore) (ID exampleServer) = None
   \<and> RestartServer exampleEnv exampleServer (initWorld exampleStore)
       = StartServer exampleEnv exampleServer (initWorld exampleStore)
   \<and> fst (RestartServer exampleEnv exampleServer (initWorld exampleStore)) = None
   \<and> runningServers attachedWorld (ID exampleServer) = Some 2
   \<and> fst (StopServer exampleEnv exampleServer attachedWorld) = None
   \<and> RestartServer exampleEnv exampleServer attachedWorld
       = StartServer exampleEnv (fst (snd (StopServer exampleEnv exampleServer attachedWorld)))
           (emit [Sleep 2] (snd (snd (StopServer exampleEnv exampleServer attachedWorld))))
   \<and> fst (RestartServer exampleEnv exampleServer attachedWorld) = None"
proof -
  let ?S = "StopServer exampleEnv exampleServer attachedWorld"
  have i: "ID exampleServer = 1" by (simp add: exampleServer_def)
  have none: "runningServers (initWorld exampleStore) (ID exampleServer) = None"
    by (simp add: initWorld_def)
  have reg: "runningServers attachedWorld (ID exampleServer) = Some 2"
    unfolding i by (rule attachedWorld_table)
  note T0 = RestartServer_outcomes[of "initWorld exampleStore" exampleServer exampleEnv]
  note T1 = RestartServer_outcomes[of attachedWorld exampleServer exampleEnv]
  have a: "RestartServer exampleEnv exampleServer (initWorld exampleStore)
             = StartServer exampleEnv exampleServer (initWorld exampleStore)"
    using T0 none by blast
  have b: "fst (RestartServer exampleEnv exampleServer (initWorld exampleStore)) = None"
    unfolding a by (simp add: example_start)
  have c: "fst ?S = None
           \<and> RestartServer exampleEnv exampleServer attachedWorld
               = StartServer exampleEnv (fst (snd ?S)) (emit [Sleep 2] (snd (snd ?S)))"
    using T1 reg by simp
  note R = StopServer_running[OF reg, of exampleEnv]
  have "StartupCommand (fst (snd ?S)) = ''java -jar server.jar''"
    unfolding R(2) by (simp add: exampleServer_def)
  then have f: "Fields (StartupCommand (fst (snd ?S))) \<noteq> []"
    by (simp add: Fields_example)
  have g: "runningServers (emit [Sleep 2] (snd (snd ?S))) (ID (fst (snd ?S))) = None"
    by (simp add: emit_def R(2) R(3))
  have d: "fst (StartServer exampleEnv (fst (snd ?S)) (emit [Sleep 2] (snd (snd ?S)))) = None"
    by (rule StartServer_success(1)[OF g f]) (simp_all add: exampleEnv_def)
  show ?thesis using none a b reg c d by simp
qed

section \<open>The exit waiter's cleanup\<close>

lemma decimalValue_snoc:
  "decimalValue (s @ [c]) = 10 * decimalValue s + (of_char c - 48)"
  by (simp add: decimalValue_def)

lemma digitsOf_nonempty: "digitsOf n \<noteq> []"
  by (subst digitsOf.simps) simp

lemma digitsOf_value: "decimalValue (digitsOf n) = n"
proof (induction n rule: digitsOf.induct)
  case (1 n)
  show ?case
  proof (cases "n < 10")
    case True
    then have "digitsOf n = [char_of (48 + n)]" by (subst digitsOf.simps) simp
    then show ?thesis using True by (simp add: decimalValue_def)
  next
    case False
    then have "digitsOf n = digitsOf (n div 10) @ [char_of (48 + n mod 10)]"
      by (subst digitsOf.simps) simp
    then show ?thesis using False "1.IH" by (simp add: decimalValue_snoc)
  qed
qed

lemma digitsOf_digits: "list_all isDigit (digitsOf n)"
proof (induction n rule: digitsOf.induct)
  case (1 n)
  show ?case
  proof (cases "n < 10")
    case True
    then have "digitsOf n = [char_of (48 + n)]" by (subst digitsOf.simps) simp
    then show ?thesis using True by (simp add: isDigit_def)
  next
    case False
    then have "digitsOf n = digitsOf (n div 10) @ [char_of (48 + n mod 10)]"
      by (subst digitsOf.simps) simp
    moreover have "(48 + n mod 10) mod 256 = 48 + n mod 10" by simp
    ultimately show ?thesis using False "1.IH" by (simp add: isDigit_def)
  qed
qed

lemma char_of_48: "char_of (48 :: nat) = CHR ''0''"
  by code_simp

lemma digitsOf_leading: "(hd (digitsOf n) = CHR ''0'') = (n = 0)"
proof (induction n rule: digitsOf.induct)
  case (1 n)
  show ?case
  proof (cases "n < 10")
    case True
    then have d: "digitsOf n = [char_of (48 + n)]" by (subst digitsOf.simps) simp
    have "(char_of (48 + n) = CHR ''0'') = (n = 0)"
    proof
      assume "char_of (48 + n) = CHR ''0''"
      then have "(of_char (char_of (48 + n)) :: nat) = of_char CHR ''0''" by simp
      then show "n = 0" using True by simp
    next
      assume "n = 0"
      then show "char_of (48 + n) = CHR ''0''" by (simp add: char_of_48)
    qed
    then show ?thesis using d by simp
  next
    case False
    then have "digitsOf n = digitsOf (n div 10) @ [char_of (48 + n mod 10)]"
      by (subst digitsOf.simps) simp
    then have "hd (digitsOf n) = hd (digitsOf (n div 10))"
      by (simp add: digitsOf_nonempty)
    then show ?thesis using False "1.IH" by simp
  qed
qed

text \<open>
  C5. Whatever \<open>Wait\<close> returned, \<open>monitorProcess\<close> removes the identifier of the
  handle's unit from the table, sets the unit's status to offline and unsets its
  start time in the struct the handle keeps (the store holds that struct when the
  save succeeded and is as before when it failed), sends every client of the handle
  the final line and closes it, and leaves the client list empty.  The final line
  names the recorded exit code: the code of an exit error, and 0 when \<open>Wait\<close>
  returned nil or another error; it is written in decimal, with a minus sign when
  negative, without leading zeros.
\<close>

theorem monitorProcess_cleanup:
  "runningServers (monitorProcess e r h w)
     = (runningServers w)(ID (Server (procs w h)) := None)
   \<and> Server (procs (monitorProcess e r h w) h)
       = (Server (procs w h))\<lparr>Status := ''offline'', StartedAt := None\<rparr>
   \<and> db (monitorProcess e r h w)
       = (if dbSave e ((Server (procs w h))\<lparr>Status := ''offline'', StartedAt := None\<rparr>) = None
          then (db w)(ID (Server (procs w h))
                       \<mapsto> (Server (procs w h))\<lparr>Status := ''offline'', StartedAt := None\<rparr>)
          else db w)
   \<and> Clients (procs (monitorProcess e r h w) h) = []
   \<and> trace (monitorProcess e r h w)
       = trace w @ concat (map (\<lambda>client. [WsWrite client (exitMessage (exitCodeOf r)),
                                              WsClose client]) (Clients (procs w h)))
   \<and> exitCodeOf (ExitError c) = c \<and> exitCodeOf WaitNil = 0 \<and> exitCodeOf (OtherError x) = 0
   \<and> exitMessage c
       = [CHR 0x0A] @ ''=== Server stopped (exit code: '' @ formatInt c @ '') ===''
           @ [CHR 0x0A]
   \<and> formatInt (int n) = digitsOf n
   \<and> formatInt (- int (Suc n)) = CHR ''-'' # digitsOf (Suc n)
   \<and> decimalValue (digitsOf n) = n \<and> list_all isDigit (digitsOf n)
   \<and> (hd (digitsOf n) = CHR ''0'') = (n = 0)"
proof -
  have "runningServers (monitorProcess e r h w)
          = (runningServers w)(ID (Server (procs w h)) := None)
   \<and> Server (procs (monitorProcess e r h w) h)
       = (Server (procs w h))\<lparr>Status := ''offline'', StartedAt := None\<rparr>
   \<and> db (monitorProcess e r h w)
       = (if dbSave e ((Server (procs w h))\<lparr>Status := ''offline'', StartedAt := None\<rparr>) = None
          then (db w)(ID (Server (procs w h))
                       \<mapsto> (Server (procs w h))\<lparr>Status := ''offline'', StartedAt := None\<rparr>)
          else db w)
   \<and> Clients (procs (monitorProcess e r h w) h) = []
   \<and> trace (monitorProcess e r h w)
       = trace w @ concat (map (\<lambda>client. [WsWrite client (exitMessage (exitCodeOf r)),
                                              WsClose client]) (Clients (procs w h)))"
    by (auto simp: monitorProcess_def monitorFinish_def monitorRemove_def SetStatus_def
        closeClients_def emit_def Let_def split: option.splits)
  moreover have "exitCodeOf (ExitError c) = c \<and> exitCodeOf WaitNil = 0
                 \<and> exitCodeOf (OtherError x) = 0"
    by (simp add: exitCodeOf_def)
  moreover have "exitMessage c
       = [CHR 0x0A] @ ''=== Server stopped (exit code: '' @ formatInt c @ '') ===''
           @ [CHR 0x0A]"
    by (simp add: exitMessage_def)
  moreover have "formatInt (int n) = digitsOf n"
    by (simp add: formatInt_def)
  moreover have "formatInt (- int (Suc n)) = CHR ''-'' # digitsOf (Suc n)"
    by (simp add: formatInt_def del: of_nat_Suc)
  ultimately show ?thesis
    using digitsOf_value[of n] digitsOf_digits[of n] digitsOf_leading[of n] by blast
qed

lemma exitMessage_examples:
  "exitMessage (exitCodeOf (ExitError 1))
     = [CHR 0x0A] @ ''=== Server stopped (exit code: 1) ==='' @ [CHR 0x0A]"
  "exitMessage (exitCodeOf (ExitError (- 1)))
     = [CHR 0x0A] @ ''=== Server stopped (exit code: -1) ==='' @ [CHR 0x0A]"
  "exitMessage (exitCodeOf (ExitError 137))
     = [CHR 0x0A] @ ''=== Server stopped (exit code: 137) ==='' @ [CHR 0x0A]"
  "exitMessage (exitCodeOf WaitNil)
     = [CHR 0x0A] @ ''=== Server stopped (exit code: 0) ==='' @ [CHR 0x0A]"
  "exitMessage (exitCodeOf (OtherError ''exec: Wait was already called''))
     = [CHR 0x0A] @ ''=== Server stopped (exit code: 0) ==='' @ [CHR 0x0A]"
  by code_simp+

theorem monitorProcess_cleanup_witness:
  "map_option Status (db (initWorld exampleStore) 1) = Some ''offline''
   \<and> map_option Status (db startedWorld 1) = Some ''online''
   \<and> trace startedWorld = [GoReadOutput 2 11 False, GoReadOutput 2 12 True, GoMonitorProcess 2]
   \<and> runningServers attachedWorld 1 = Some 2
   \<and> Clients (procs attachedWorld 2) = [7, 8]
   \<and> runningServers (monitorProcess exampleEnv (ExitError 1) 2 attachedWorld) 1 = None
   \<and> db (monitorProcess exampleEnv (ExitError 1) 2 attachedWorld) 1
       = Some (exampleServer\<lparr>Status := ''offline'', StartedAt := None\<rparr>)
   \<and> Server (procs (monitorProcess exampleEnv (ExitError 1) 2 attachedWorld) 2)
       = exampleServer\<lparr>Status := ''offline'', StartedAt := None\<rparr>
   \<and> Clients (procs (monitorProcess exampleEnv (ExitError 1) 2 attachedWorld) 2) = []
   \<and> trace (monitorProcess exampleEnv (ExitError 1) 2 attachedWorld)
       = trace attachedWorld
         @ [WsWrite 7 ([CHR 0x0A] @ ''=== Server stopped (exit code: 1) ==='' @ [CHR 0x0A]),
            WsClose 7,
            WsWrite 8 ([CHR 0x0A] @ ''=== Server stopped (exit code: 1) ==='' @ [CHR 0x0A]),
            WsClose 8]
   \<and> trace (monitorProcess exampleEnv (ExitError (- 1)) 2 attachedWorld)
       = trace attachedWorld
         @ [WsWrite 7 ([CHR 0x0A] @ ''=== Server stopped (exit code: -1) ==='' @ [CHR 0x0A]),
            WsClose 7,
            WsWrite 8 ([CHR 0x0A] @ ''=== Server stopped (exit code: -1) ==='' @ [CHR 0x0A]),
            WsClose 8]
   \<and> trace (monitorProcess exampleEnv (ExitError 137) 2 attachedWorld)
       = trace attachedWorld
         @ [WsWrite 7 ([CHR 0x0A] @ ''=== Server stopped (exit code: 137) ==='' @ [CHR 0x0A]),
            WsClose 7,
            WsWrite 8 ([CHR 0x0A] @ ''=== Server stopped (exit code: 137) ==='' @ [CHR 0x0A]),
            WsClose 8]
   \<and> trace (monitorProcess exampleEnv WaitNil 2 attachedWorld)
       = trace attachedWorld
         @ [WsWrite 7 ([CHR 0x0A] @ ''=== Server stopped (exit code: 0) ==='' @ [CHR 0x0A]),
            WsClose 7,
            WsWrite 8 ([CHR 0x0A] @ ''=== Server stopped (exit code: 0) ==='' @ [CHR 0x0A]),
            WsClose 8]
   \<and> trace (monitorProcess exampleEnv (OtherError ''exec: Wait was already called'') 2
              attachedWorld)
       = trace attachedWorld
         @ [WsWrite 7 ([CHR 0x0A] @ ''=== Server stopped (exit code: 0) ==='' @ [CHR 0x0A]),
            WsClose 7,
            WsWrite 8 ([CHR 0x0A] @ ''=== Server stopped (exit code: 0) ==='' @ [CHR 0x0A]),
            WsClose 8]
   \<and> db (monitorProcess (exampleEnv\<lparr>dbSave := \<lambda>_. Some ''database is locked''\<rparr>)
            (ExitError 1) 2 attachedWorld) = db attachedWorld"
proof -
  let ?w = "monitorProcess exampleEnv (ExitError 1) 2 attachedWorld"
  note T = monitorProcess_cleanup[of exampleEnv _ 2 attachedWorld]
  note F = monitorProcess_cleanup[of "exampleEnv\<lparr>dbSave := \<lambda>_. Some ''database is locked''\<rparr>"
      "ExitError 1" 2 attachedWorld]
  have i: "ID (Server (procs attachedWorld 2)) = 1"
    by (simp add: attachedWorld_proc exampleServer_def)
  have s: "Server (procs attachedWorld 2)
           = exampleServer\<lparr>Status := ''online'', StartedAt := Some 100\<rparr>"
    by (simp add: attachedWorld_proc)
  have sv: "dbSave exampleEnv s' = None" for s' by (simp add: exampleEnv_def)
  have a: "map_option Status (db (initWorld exampleStore) 1) = Some ''offline''"
    by (simp add: initWorld_def exampleStore_def exampleServer_def)
  have b: "map_option Status (db startedWorld 1) = Some ''online''"
    using startedWorld_db by simp
  have c: "Clients (procs attachedWorld 2) = [7, 8]" by (simp add: attachedWorld_proc)
  have t: "runningServers ?w 1 = None" using T[of "ExitError 1"] i by simp
  have d: "db ?w 1 = Some (exampleServer\<lparr>Status := ''offline'', StartedAt := None\<rparr>)"
    using T[of "ExitError 1"] i s sv by simp
  have u: "Server (procs ?w 2) = exampleServer\<lparr>Status := ''offline'', StartedAt := None\<rparr>"
    using T[of "ExitError 1"] s by simp
  have k: "Clients (procs ?w 2) = []" using T[of "ExitError 1"] by simp
  have tr: "trace (monitorProcess exampleEnv r 2 attachedWorld)
            = trace attachedWorld
              @ [WsWrite 7 (exitMessage (exitCodeOf r)), WsClose 7,
                 WsWrite 8 (exitMessage (exitCodeOf r)), WsClose 8]" for r
    using T[of r] c by simp
  have f: "db (monitorProcess (exampleEnv\<lparr>dbSave := \<lambda>_. Some ''database is locked''\<rparr>)
            (ExitError 1) 2 attachedWorld) = db attachedWorld"
    using F by simp
  show ?thesis
    using a b startedWorld_trace attachedWorld_table c t d u k f
    unfolding tr exitMessage_examples by simp
qed

section \<open>Broadcasting a line\<close>

lemma writeLoop_result:
  "writeLoop e line cs i disc out
     = (disc @ failedAt e line cs i, out @ map (\<lambda>client. WsWrite client line) cs)"
  by (induction cs arbitrary: i disc out) auto

lemma removeAt_middle: "length pre = i \<Longrightarrow> removeAt i (pre @ c # ys) = pre @ ys"
  by (simp add: removeAt_def)

lemma foldr_removeAt_failed:
  "length pre = i \<Longrightarrow>
   foldr removeAt (failedAt e line cs i) (pre @ cs)
     = pre @ filter (\<lambda>client. wsWrite e client line) cs"
proof (induction cs arbitrary: pre i)
  case Nil
  then show ?case by simp
next
  case (Cons c cs)
  have ih: "foldr removeAt (failedAt e line cs (Suc i)) ((pre @ [c]) @ cs)
              = (pre @ [c]) @ filter (\<lambda>client. wsWrite e client line) cs"
    by (rule Cons.IH) (simp add: Cons.prems)
  show ?case
  proof (cases "wsWrite e c line")
    case True
    then show ?thesis using ih by simp
  next
    case False
    then have "foldr removeAt (failedAt e line (c # cs) i) (pre @ c # cs)
               = removeAt i (foldr removeAt (failedAt e line cs (Suc i)) ((pre @ [c]) @ cs))"
      by simp
    also have "\<dots> = removeAt i (pre @ c # filter (\<lambda>client. wsWrite e client line) cs)"
      unfolding ih by simp
    also have "\<dots> = pre @ filter (\<lambda>client. wsWrite e client line) cs"
      by (rule removeAt_middle[OF Cons.prems])
    finally show ?thesis using False by simp
  qed
qed

lemma failedAt_in_range: "j \<in> set (failedAt e line cs i) \<Longrightarrow> i \<le> j \<and> j < i + length cs"
proof (induction cs arbitrary: i)
  case Nil
  then show ?case by simp
next
  case (Cons c cs)
  show ?case
  proof (cases "j \<in> set (failedAt e line cs (Suc i))")
    case True
    then show ?thesis using Cons.IH[of "Suc i"] by simp
  next
    case False
    then have "j = i" using Cons.prems by (simp split: if_splits)
    then show ?thesis by simp
  qed
qed

lemma broadcast_fields:
  "Clients (procs (broadcast e h line w) h)
     = filter (\<lambda>client. wsWrite e client line) (Clients (procs w h))"
  "trace (broadcast e h line w)
     = trace w @ map (\<lambda>client. WsWrite client line) (Clients (procs w h))"
  "runningServers (broadcast e h line w) = runningServers w"
  "db (broadcast e h line w) = db w"
  "arrays (broadcast e h line w) = arrays w"
  "nextAddr (broadcast e h line w) = nextAddr w"
  "Logs (procs (broadcast e h line w) h') = Logs (procs w h')"
  "Server (procs (broadcast e h line w) h') = Server (procs w h')"
  "h' \<noteq> h \<Longrightarrow> procs (broadcast e h line w) h' = procs w h'"
  using foldr_removeAt_failed[of "[]" 0 e line "Clients (procs w h)"]
  by (simp_all add: broadcast_def writeLoop_result emit_def Let_def)


lemma linesSentTo_append: "linesSentTo c (xs @ ys) = linesSentTo c xs @ linesSentTo c ys"
  by (induction c xs rule: linesSentTo.induct) auto

lemma linesSentTo_writes:
  "distinct cs \<Longrightarrow>
   linesSentTo c (map (\<lambda>client. WsWrite client line) cs) = (if c \<in> set cs then [line] else [])"
  by (induction cs) auto

lemma broadcasts_trace:
  "\<exists>evs. trace (broadcasts els h w) = trace w @ evs"
proof (induction els arbitrary: w)
  case Nil
  then show ?case by simp
next
  case (Cons p els)
  obtain e line where p: "p = (e, line)" by (cases p)
  obtain evs where "trace (broadcasts els h (broadcast e h line w))
                    = trace (broadcast e h line w) @ evs"
    using Cons.IH by blast
  then show ?case using p by (simp add: broadcast_fields(2))
qed

lemma broadcasts_kept:
  assumes "distinct (Clients (procs w h))"
    and "c \<in> set (Clients (procs (broadcasts els h w) h))"
  shows "c \<in> set (Clients (procs w h))
         \<and> linesSentTo c (drop (length (trace w)) (trace (broadcasts els h w))) = map snd els
         \<and> list_all (\<lambda>(e, line). wsWrite e c line) els"
  using assms
proof (induction els arbitrary: w)
  case Nil
  then show ?case by simp
next
  case (Cons p els)
  obtain e line where p: "p = (e, line)" by (cases p)
  let ?w1 = "broadcast e h line w"
  let ?cs = "Clients (procs w h)"
  have d1: "distinct (Clients (procs ?w1 h))"
    using Cons.prems(1) by (simp add: broadcast_fields(1))
  have in1: "c \<in> set (Clients (procs (broadcasts els h ?w1) h))"
    using Cons.prems(2) p by simp
  note IH = Cons.IH[OF d1 in1]
  from IH have c1: "c \<in> set (Clients (procs ?w1 h))" by simp
  then have c0: "c \<in> set ?cs" and ok: "wsWrite e c line"
    by (simp_all add: broadcast_fields(1))
  obtain evs where evs: "trace (broadcasts els h ?w1) = trace ?w1 @ evs"
    using broadcasts_trace by blast
  have t1: "trace ?w1 = trace w @ map (\<lambda>client. WsWrite client line) ?cs"
    by (rule broadcast_fields(2))
  have "linesSentTo c evs = map snd els" using IH evs by simp
  moreover have "linesSentTo c (map (\<lambda>client. WsWrite client line) ?cs) = [line]"
    using linesSentTo_writes[OF Cons.prems(1)] c0 by simp
  ultimately have "linesSentTo c (drop (length (trace w)) (trace (broadcasts (p # els) h w)))
                   = map snd (p # els)"
    using p evs t1 by (simp add: linesSentTo_append)
  then show ?case using c0 ok IH p by simp
qed

text \<open>
  C7. The broadcast part of the reader's loop has no error result.  It writes the
  line to every client of the handle, in the order of the list, and afterwards the
  list holds exactly the clients whose write succeeded, in the same order.  When the
  clients are distinct connections (each connection is attached once), each of them
  is sent the line exactly once.  Over any sequence of broadcasts, a connection that
  is still in the list at the end was in it at the beginning and has been sent every
  line of the sequence, once each and in order; and a connection is in the list of a
  running unit's handle once \<open>AddConsoleListener\<close> has attached it.
\<close>

theorem broadcast_delivery:
  "Clients (procs (broadcast e h line w) h)
     = filter (\<lambda>client. wsWrite e client line) (Clients (procs w h))
   \<and> trace (broadcast e h line w)
       = trace w @ map (\<lambda>client. WsWrite client line) (Clients (procs w h))
   \<and> (distinct (Clients (procs w h)) \<longrightarrow>
        (\<forall>c \<in> set (Clients (procs w h)).
           linesSentTo c (drop (length (trace w)) (trace (broadcast e h line w))) = [line]))
   \<and> (distinct (Clients (procs w h)) \<and> c \<in> set (Clients (procs (broadcasts els h w) h)) \<longrightarrow>
        c \<in> set (Clients (procs w h))
        \<and> linesSentTo c (drop (length (trace w)) (trace (broadcasts els h w))) = map snd els)
   \<and> (runningServers w (ID server) = Some h \<longrightarrow>
        c \<in> set (Clients (procs (AddConsoleListener server c w) h)))"
proof -
  have a: "distinct (Clients (procs w h)) \<Longrightarrow> c' \<in> set (Clients (procs w h)) \<Longrightarrow>
        linesSentTo c' (drop (length (trace w)) (trace (broadcast e h line w))) = [line]" for c'
    by (simp add: broadcast_fields(2) linesSentTo_writes)
  have b: "runningServers w (ID server) = Some h \<Longrightarrow>
        c \<in> set (Clients (procs (AddConsoleListener server c w) h))"
    by (simp add: AddConsoleListener_def emit_def Let_def)
  show ?thesis
    using a b broadcasts_kept[of w h c els] by (auto simp: broadcast_fields(1,2))
qed


theorem broadcast_delivery_witness:
  "Clients (procs attachedWorld 2) = [7, 8]
   \<and> distinct (Clients (procs attachedWorld 2))
   \<and> \<not> wsWrite (exampleEnv\<lparr>wsWrite := \<lambda>c _. c \<noteq> 7\<rparr>) 7 ''x''
   \<and> Clients (procs (broadcast (exampleEnv\<lparr>wsWrite := \<lambda>c _. c \<noteq> 7\<rparr>) 2 ''x'' attachedWorld) 2)
       = [8]
   \<and> trace (broadcast (exampleEnv\<lparr>wsWrite := \<lambda>c _. c \<noteq> 7\<rparr>) 2 ''x'' attachedWorld)
       = trace attachedWorld @ [WsWrite 7 ''x'', WsWrite 8 ''x'']
   \<and> 8 \<in> set (Clients (procs (broadcasts [(exampleEnv\<lparr>wsWrite := \<lambda>c _. c \<noteq> 7\<rparr>, ''x''),
                                              (exampleEnv, ''y'')] 2 attachedWorld) 2))
   \<and> linesSentTo 8 (drop (length (trace attachedWorld))
        (trace (broadcasts [(exampleEnv\<lparr>wsWrite := \<lambda>c _. c \<noteq> 7\<rparr>, ''x''),
                            (exampleEnv, ''y'')] 2 attachedWorld)))
       = [''x'', ''y'']"
proof -
  let ?E = "exampleEnv\<lparr>wsWrite := \<lambda>c _. c \<noteq> 7\<rparr>"
  let ?els = "[(?E, ''x''), (exampleEnv, ''y'')]"
  have cl: "Clients (procs attachedWorld 2) = [7, 8]" by (simp add: attachedWorld_proc)
  then have di: "distinct (Clients (procs attachedWorld 2))" by simp
  have f: "\<not> wsWrite ?E 7 ''x''" by simp
  have k: "8 \<in> set (Clients (procs (broadcasts ?els 2 attachedWorld) 2))"
    by (simp add: broadcast_fields(1) cl exampleEnv_def)
  note T = broadcast_delivery[of ?E 2 "''x''" attachedWorld 8 ?els]
  have a: "Clients (procs (broadcast ?E 2 ''x'' attachedWorld) 2) = [8]"
    using T cl by simp
  have b: "trace (broadcast ?E 2 ''x'' attachedWorld)
           = trace attachedWorld @ [WsWrite 7 ''x'', WsWrite 8 ''x'']"
    using T cl by simp
  have c: "linesSentTo 8 (drop (length (trace attachedWorld))
             (trace (broadcasts ?els 2 attachedWorld))) = [''x'', ''y'']"
    using T di k by simp
  show ?thesis using cl di f k a b c by blast
qed

section \<open>Status and table\<close>

text \<open>
  Each call of the supervisor, run from beginning to end with nothing in between and
  with the store accepting the save, keeps the agreement of recorded status, table
  and start time; so does the exit waiter when its two parts run one right after the
  other.
\<close>

lemma SetStatus_fields:
  "fst (SetStatus e status s w)
     = s\<lparr>Status := status, StartedAt := (if status = ''online'' then Some (clock e) else None)\<rparr>"
  "fst (snd (SetStatus e status s w)) = dbSave e (fst (SetStatus e status s w))"
  "db (snd (snd (SetStatus e status s w)))
     = (if dbSave e (fst (SetStatus e status s w)) = None
        then (db w)(ID s \<mapsto> fst (SetStatus e status s w)) else db w)"
  "runningServers (snd (snd (SetStatus e status s w))) = runningServers w"
  by (simp_all add: SetStatus_def Let_def split: option.splits)

lemma StartServer_cases:
  "\<forall>s. dbSave e s = None \<Longrightarrow>
   (fst (StartServer e server w) \<noteq> None \<and> StartServer e server w = (fst (StartServer e server w), server, w))
   \<or> (fst (StartServer e server w) = None \<and> runningServers w (ID server) = None
      \<and> runningServers (snd (snd (StartServer e server w)))
           = (runningServers w)(ID server \<mapsto> Suc (nextAddr w))
      \<and> db (snd (snd (StartServer e server w)))
           = (db w)(ID server \<mapsto> server\<lparr>Status := ''online'', StartedAt := Some (clock e)\<rparr>))"
  by (auto simp: StartServer_def makeSlice_def SetStatus_def emit_def Let_def
      split: list.splits sum.splits option.splits)

lemma StartServer_keeps_agreement:
  assumes "\<forall>u. statusAgrees w u \<and> startTimeAgrees w u" and "\<forall>s. dbSave e s = None"
  shows "statusAgrees (snd (snd (StartServer e server w))) u
         \<and> startTimeAgrees (snd (snd (StartServer e server w))) u"
proof -
  from StartServer_cases[OF assms(2), of server w] show ?thesis
  proof
    assume "fst (StartServer e server w) \<noteq> None
            \<and> StartServer e server w = (fst (StartServer e server w), server, w)"
    then have "snd (snd (StartServer e server w)) = w" by (metis snd_conv)
    then show ?thesis using assms(1) by simp
  next
    assume a: "fst (StartServer e server w) = None \<and> runningServers w (ID server) = None
      \<and> runningServers (snd (snd (StartServer e server w)))
           = (runningServers w)(ID server \<mapsto> Suc (nextAddr w))
      \<and> db (snd (snd (StartServer e server w)))
           = (db w)(ID server \<mapsto> server\<lparr>Status := ''online'', StartedAt := Some (clock e)\<rparr>)"
    have "statusAgrees w u \<and> startTimeAgrees w u" using assms(1) by simp
    then show ?thesis using a by (simp add: statusAgrees_def startTimeAgrees_def)
  qed
qed

lemma StopServer_keeps_agreement:
  assumes "\<forall>u. statusAgrees w u \<and> startTimeAgrees w u" and "\<forall>s. dbSave e s = None"
  shows "statusAgrees (snd (snd (StopServer e server w))) u
         \<and> startTimeAgrees (snd (snd (StopServer e server w))) u"
proof (cases "runningServers w (ID server)")
  case None
  then show ?thesis using assms(1) by (simp add: StopServer_not_running)
next
  case (Some h)
  have "statusAgrees w u \<and> startTimeAgrees w u" using assms(1) by simp
  then show ?thesis
    using StopServer_running(3,4)[OF Some, of e] assms(2)
    by (simp add: statusAgrees_def startTimeAgrees_def)
qed

lemma emit_keeps_agreement:
  "statusAgrees (emit es w) u = statusAgrees w u"
  "startTimeAgrees (emit es w) u = startTimeAgrees w u"
  by (simp_all add: statusAgrees_def startTimeAgrees_def emit_def)

lemma RestartServer_keeps_agreement:
  assumes "\<forall>u. statusAgrees w u \<and> startTimeAgrees w u" and "\<forall>s. dbSave e s = None"
  shows "statusAgrees (snd (snd (RestartServer e server w))) u
         \<and> startTimeAgrees (snd (snd (RestartServer e server w))) u"
proof (cases "runningServers w (ID server)")
  case None
  then have "RestartServer e server w = StartServer e server w"
    by (simp add: RestartServer_def StopServer_not_running)
  then show ?thesis using StartServer_keeps_agreement[OF assms] by simp
next
  case (Some h)
  let ?S = "StopServer e server w"
  have eq: "RestartServer e server w
            = StartServer e (fst (snd ?S)) (emit [Sleep 2] (snd (snd ?S)))"
    using StopServer_running(1)[OF Some, of e] by (auto simp: RestartServer_def split: prod.splits)
  have "\<forall>u. statusAgrees (emit [Sleep 2] (snd (snd ?S))) u
            \<and> startTimeAgrees (emit [Sleep 2] (snd (snd ?S))) u"
    using StopServer_keeps_agreement[OF assms] by (simp add: emit_keeps_agreement)
  then show ?thesis unfolding eq by (rule StartServer_keeps_agreement[OF _ assms(2)])
qed

lemma SendCommand_keeps_agreement:
  "statusAgrees (snd (SendCommand e server command w)) u = statusAgrees w u"
  "startTimeAgrees (snd (SendCommand e server command w)) u = startTimeAgrees w u"
  by (auto simp: SendCommand_def statusAgrees_def startTimeAgrees_def emit_def Let_def
      split: option.splits)

lemma monitorProcess_keeps_agreement:
  assumes "\<forall>u. statusAgrees w u \<and> startTimeAgrees w u" and "\<forall>s. dbSave e s = None"
  shows "statusAgrees (monitorProcess e r h w) u \<and> startTimeAgrees (monitorProcess e r h w) u"
proof -
  have "statusAgrees w u \<and> startTimeAgrees w u" using assms(1) by simp
  then show ?thesis
    using assms(2)
    by (simp add: statusAgrees_def startTimeAgrees_def monitorProcess_def monitorFinish_def
        monitorRemove_def SetStatus_def closeClients_def emit_def Let_def)
qed

lemma initWorld_agreement:
  "(\<forall>u s. rows u = Some s \<longrightarrow> Status s = ''offline'' \<and> StartedAt s = None) \<Longrightarrow>
   statusAgrees (initWorld rows) u \<and> startTimeAgrees (initWorld rows) u"
  by (auto simp: statusAgrees_def startTimeAgrees_def initWorld_def split: option.splits)


subsection \<open>A start between the two parts of the exit waiter\<close>

lemma StartServer_other_procs:
  "h' \<noteq> Suc (nextAddr w) \<Longrightarrow> procs (snd (snd (StartServer e server w))) h' = procs w h'"
  by (auto simp: StartServer_def makeSlice_def SetStatus_def emit_def Let_def
      split: list.splits sum.splits option.splits)

lemma monitorFinish_fields:
  "runningServers (monitorFinish e r h w) = runningServers w"
  "db (monitorFinish e r h w)
     = (if dbSave e ((Server (procs w h))\<lparr>Status := ''offline'', StartedAt := None\<rparr>) = None
        then (db w)(ID (Server (procs w h))
                     \<mapsto> (Server (procs w h))\<lparr>Status := ''offline'', StartedAt := None\<rparr>)
        else db w)"
  by (auto simp: monitorFinish_def SetStatus_def closeClients_def emit_def Let_def
      split: option.splits)

lemma monitorRemove_fields:
  "runningServers (monitorRemove h w) = (runningServers w)(ID (Server (procs w h)) := None)"
  "db (monitorRemove h w) = db w" "procs (monitorRemove h w) = procs w"
  "nextAddr (monitorRemove h w) = nextAddr w"
  by (simp_all add: monitorRemove_def)

text \<open>
  C6. The recorded status of a unit is to be online exactly when the table has a
  handle for it, after every completed call and whenever nothing is in progress.
  \<open>monitorProcess\<close> releases the table lock after the removal and writes the status
  afterwards.  In the started world status and table agree for every unit, and the
  exit waiter of handle 2 has been launched.  The process exits; the exit waiter
  removes the entry and unlocks; \<open>StartServer\<close> for the unit runs
  and succeeds (new handle at address 4, status online); the exit waiter goes on and
  writes offline.  Nothing is in progress any more, the unit has a handle in the
  table, and its recorded status is offline with no start time.
\<close>

theorem exit_waiter_overwrites_restart:
  "(\<forall>u. statusAgrees startedWorld u \<and> startTimeAgrees startedWorld u)
   \<and> GoMonitorProcess 2 \<in> set (trace startedWorld)
   \<and> runningServers (monitorRemove 2 startedWorld) 1 = None
   \<and> fst (StartServer exampleEnv2 exampleServer (monitorRemove 2 startedWorld)) = None
   \<and> IsServerRunning exampleServer racedWorld
   \<and> runningServers racedWorld 1 = Some 4
   \<and> db racedWorld 1 = Some (exampleServer\<lparr>Status := ''offline'', StartedAt := None\<rparr>)
   \<and> \<not> statusAgrees racedWorld 1"
proof -
  let ?w2 = "monitorRemove 2 startedWorld"
  let ?w3 = "snd (snd (StartServer exampleEnv2 exampleServer ?w2))"
  have i: "ID exampleServer = 1" by (simp add: exampleServer_def)
  have init: "\<forall>u. statusAgrees (initWorld exampleStore) u
                  \<and> startTimeAgrees (initWorld exampleStore) u"
    by (intro allI initWorld_agreement) (auto simp: exampleStore_def exampleServer_def)
  have sv: "\<forall>s. dbSave exampleEnv s = None" "\<forall>s. dbSave exampleEnv2 s = None"
    by (simp_all add: exampleEnv2_def exampleEnv_def)
  have a: "\<forall>u. statusAgrees startedWorld u \<and> startTimeAgrees startedWorld u"
    unfolding startedWorld_def by (intro allI StartServer_keeps_agreement[OF init sv(1)])
  have s2: "Server (procs startedWorld 2)
            = exampleServer\<lparr>Status := ''online'', StartedAt := Some 100\<rparr>"
    by (simp add: startedWorld_proc)
  have id2: "ID (Server (procs startedWorld 2)) = 1" unfolding s2 by (simp add: exampleServer_def)
  have t2: "runningServers ?w2 (ID exampleServer) = None"
    by (simp add: monitorRemove_fields(1) id2 i)
  have f: "Fields (StartupCommand exampleServer) \<noteq> []"
    by (simp add: exampleServer_def Fields_example)
  note S = StartServer_success[OF t2 f, of exampleEnv2]
  have ok: "fst (StartServer exampleEnv2 exampleServer ?w2) = None"
    by (rule S(1)) (simp_all add: exampleEnv2_def exampleEnv_def)
  have t3: "runningServers ?w3 = (runningServers ?w2)(ID exampleServer \<mapsto> Suc (nextAddr ?w2))"
    by (rule S(3)) (simp_all add: exampleEnv2_def exampleEnv_def)
  have n2: "nextAddr ?w2 = 3" by (simp add: monitorRemove_fields(4) startedWorld_heap)
  have p3: "procs ?w3 2 = procs startedWorld 2"
    using StartServer_other_procs[of 2 ?w2 exampleEnv2 exampleServer]
    by (simp add: n2 monitorRemove_fields(3))
  have t4: "runningServers racedWorld 1 = Some 4"
    unfolding racedWorld_def monitorFinish_fields(1) t3 by (simp add: i n2)
  have d4: "db racedWorld 1 = Some (exampleServer\<lparr>Status := ''offline'', StartedAt := None\<rparr>)"
    unfolding racedWorld_def monitorFinish_fields(2) p3 using id2 sv(2) by (simp add: s2)
  have r: "IsServerRunning exampleServer racedWorld"
    using t4 by (simp add: IsServerRunning_def i)
  have n: "\<not> statusAgrees racedWorld 1"
    using t4 d4 by (simp add: statusAgrees_def)
  have g: "GoMonitorProcess 2 \<in> set (trace startedWorld)"
    by (simp add: startedWorld_trace)
  show ?thesis using a g t2[unfolded i] ok r t4 d4 n by blast
qed

section \<open>All buffers, and the reader as a whole\<close>

text \<open>
  The buffers of all handles are well-formed slices in the initial world, and
  \<open>StartServer\<close> and the reader's append keep them so (no other function writes to
  the arrays or to a handle's \<open>Logs\<close>, and \<open>GetLogs\<close> only allocates).  A new
  handle has an empty buffer, no clients, an input stream and a process.  As far as the
  buffer is concerned \<open>readOutput\<close> is the sequence of appends of the sanitized
  lines, and as far as clients and trace are concerned it is the sequence of their
  broadcasts.
\<close>

lemma initWorld_logsOk: "logsOk (initWorld rows)"
  by (simp add: logsOk_def sliceOk_def initWorld_def nilProcess_def)

lemma StartServer_heap:
  "(snd (snd (StartServer e server w)) = w)
   \<or> (arrays (snd (snd (StartServer e server w))) = (arrays w)(nextAddr w := [])
      \<and> nextAddr (snd (snd (StartServer e server w))) = Suc (Suc (nextAddr w))
      \<and> Logs (procs (snd (snd (StartServer e server w))) (Suc (nextAddr w)))
          = \<lparr>sl_arr = nextAddr w, sl_off = 0, sl_len = 0, sl_cap = 0\<rparr>
      \<and> (\<forall>h. h \<noteq> Suc (nextAddr w) \<longrightarrow>
             procs (snd (snd (StartServer e server w))) h = procs w h))"
  by (auto simp: StartServer_def makeSlice_def SetStatus_def emit_def Let_def
      split: list.splits sum.splits option.splits)

lemma StartServer_logsOk:
  assumes "logsOk w"
  shows "logsOk (snd (snd (StartServer e server w)))"
proof -
  let ?w = "snd (snd (StartServer e server w))"
  from StartServer_heap[of e server w] show ?thesis
  proof
    assume "?w = w"
    then show ?thesis using assms by simp
  next
    assume a: "arrays ?w = (arrays w)(nextAddr w := [])
      \<and> nextAddr ?w = Suc (Suc (nextAddr w))
      \<and> Logs (procs ?w (Suc (nextAddr w)))
          = \<lparr>sl_arr = nextAddr w, sl_off = 0, sl_len = 0, sl_cap = 0\<rparr>
      \<and> (\<forall>h. h \<noteq> Suc (nextAddr w) \<longrightarrow> procs ?w h = procs w h)"
    show ?thesis unfolding logsOk_def
    proof
      fix h
      show "sliceOk ?w (Logs (procs ?w h))"
      proof (cases "h = Suc (nextAddr w)")
        case True
        then show ?thesis using a by (simp add: sliceOk_def)
      next
        case False
        have "sliceOk w (Logs (procs w h))" using assms by (simp add: logsOk_def)
        then show ?thesis using a False by (auto simp: sliceOk_def)
      qed
    qed
  qed
qed

lemma StartServer_new_handle:
  assumes "logsOk w" and "fst (StartServer e server w) = None"
  shows "runningServers (snd (snd (StartServer e server w))) (ID server) = Some (Suc (nextAddr w))"
    and "logsOf (Suc (nextAddr w)) (snd (snd (StartServer e server w))) = []"
    and "Clients (procs (snd (snd (StartServer e server w))) (Suc (nextAddr w))) = []"
    and "Stdin (procs (snd (snd (StartServer e server w))) (Suc (nextAddr w))) \<noteq> None"
    and "Process (Cmd (procs (snd (snd (StartServer e server w))) (Suc (nextAddr w)))) \<noteq> None"
  using assms(2)
  by (auto simp: StartServer_def makeSlice_def SetStatus_def emit_def logsOf_def sliceElems_def
      Let_def split: list.splits sum.splits if_splits option.splits)

lemma goAppend_keeps_other:
  assumes "sliceOk w s" and "sliceOk w s'"
  shows "sliceOk (snd (goAppend e s x w)) s'"
  using assms by (auto simp: goAppend_def sliceOk_def Let_def)

lemma appendLog_logsOk:
  assumes "logsOk w"
  shows "logsOk (appendLog e h x w)"
  unfolding logsOk_def
proof
  fix h'
  obtain s1 w1 where g: "goAppend e (Logs (procs w h)) x w = (s1, w1)"
    by (cases "goAppend e (Logs (procs w h)) x w")
  have okh: "sliceOk w (Logs (procs w h))" and okh': "sliceOk w (Logs (procs w h'))"
    using assms by (simp_all add: logsOk_def)
  show "sliceOk (appendLog e h x w) (Logs (procs (appendLog e h x w) h'))"
  proof (cases "h' = h")
    case True
    then show ?thesis using appendLog_ok[OF okh] by simp
  next
    case False
    have "sliceOk w1 (Logs (procs w h'))"
      using goAppend_keeps_other[OF okh okh', of e x] g by simp
    moreover have "Logs (procs (appendLog e h x w) h') = Logs (procs w h')"
      using False g by (auto simp: appendLog_def goAppend_def Let_def split: if_splits)
    ultimately show ?thesis
      using sliceOk_arrays[OF appendLog_parts(2)[OF g] appendLog_parts(3)[OF g]] by simp
  qed
qed

lemma same_logs_appendLog:
  assumes "arrays w1 = arrays w2" and "nextAddr w1 = nextAddr w2"
    and "Logs (procs w1 h) = Logs (procs w2 h)"
  shows "arrays (appendLog e h x w1) = arrays (appendLog e h x w2)
         \<and> nextAddr (appendLog e h x w1) = nextAddr (appendLog e h x w2)
         \<and> Logs (procs (appendLog e h x w1) h) = Logs (procs (appendLog e h x w2) h)"
  using assms by (simp add: appendLog_def goAppend_def sliceElems_def Let_def)

lemma readOutput_logs:
  assumes "arrays w1 = arrays w2" and "nextAddr w1 = nextAddr w2"
    and "Logs (procs w1 h) = Logs (procs w2 h)"
  shows "logsOf h (readOutput els h w1)
         = logsOf h (appendLogs (map (\<lambda>(e, text). (e, stripAnsiCodes text)) els) h w2)"
  using assms
proof (induction els arbitrary: w1 w2)
  case Nil
  then show ?case by (simp add: logsOf_def sliceElems_def)
next
  case (Cons p els)
  obtain e raw where p: "p = (e, raw)" by (cases p)
  let ?l = "stripAnsiCodes raw"
  note A = same_logs_appendLog[OF Cons.prems, of e ?l]
  have "logsOf h (readOutput els h (broadcast e h ?l (appendLog e h ?l w1)))
        = logsOf h (appendLogs (map (\<lambda>(e, text). (e, stripAnsiCodes text)) els) h
                      (appendLog e h ?l w2))"
    by (rule Cons.IH) (simp_all add: broadcast_fields A)
  then show ?case using p by (simp add: Let_def)
qed

lemma same_clients_broadcast:
  assumes "Clients (procs w1 h) = Clients (procs w2 h)" and "trace w1 = trace w2"
  shows "Clients (procs (broadcast e h x w1) h) = Clients (procs (broadcast e h x w2) h)
         \<and> trace (broadcast e h x w1) = trace (broadcast e h x w2)"
  using assms by (simp add: broadcast_fields)

lemma appendLog_clients:
  "Clients (procs (appendLog e h x w) h') = Clients (procs w h')"
  "trace (appendLog e h x w) = trace w"
  by (auto simp: appendLog_def goAppend_def Let_def)

lemma readOutput_clients:
  assumes "Clients (procs w1 h) = Clients (procs w2 h)" and "trace w1 = trace w2"
  shows "Clients (procs (readOutput els h w1) h)
           = Clients (procs (broadcasts (map (\<lambda>(e, text). (e, stripAnsiCodes text)) els) h w2) h)
         \<and> trace (readOutput els h w1)
           = trace (broadcasts (map (\<lambda>(e, text). (e, stripAnsiCodes text)) els) h w2)"
  using assms
proof (induction els arbitrary: w1 w2)
  case Nil
  then show ?case by simp
next
  case (Cons p els)
  obtain e raw where p: "p = (e, raw)" by (cases p)
  let ?l = "stripAnsiCodes raw"
  have "Clients (procs (appendLog e h ?l w1) h) = Clients (procs w2 h)"
    and "trace (appendLog e h ?l w1) = trace w2"
    using Cons.prems by (simp_all add: appendLog_clients)
  note B = same_clients_broadcast[OF this, of e ?l]
  have "Clients (procs (readOutput els h (broadcast e h ?l (appendLog e h ?l w1))) h)
          = Clients (procs (broadcasts (map (\<lambda>(e, text). (e, stripAnsiCodes text)) els) h
                             (broadcast e h ?l w2)) h)
        \<and> trace (readOutput els h (broadcast e h ?l (appendLog e h ?l w1)))
          = trace (broadcasts (map (\<lambda>(e, text). (e, stripAnsiCodes text)) els) h
                     (broadcast e h ?l w2))"
    by (rule Cons.IH) (simp_all add: B)
  then show ?case using p by (simp add: Let_def)
qed

end
